theory Spec2Isabelle
  imports Main "HOL-Library.Word" "HOL-Library.Char_ord" "HOL-Library.List_Lexorder"
    "HOL-Library.Multiset"
begin

section \<open>The JSON coverage exporter of llvm-cov (CoverageExporterJson.cpp)\<close>

subsection \<open>Machine integers\<close>

text \<open>
  \<open>unsigned\<close> is 32 bits wide and \<open>size_t\<close>, \<open>uint64_t\<close> and \<open>int64_t\<close> are 64 bits
  wide (an LP64 host). An \<open>int64_t\<close> is kept as its bit pattern and read with \<open>sint\<close>;
  the cast \<open>int64_t(x)\<close> of a 64-bit unsigned \<open>x\<close> keeps the bits, the conversion of an
  \<open>unsigned\<close> to \<open>int64_t\<close> zero-extends (\<open>ucast\<close>).
\<close>

type_synonym unsigned = "32 word"
type_synonym uint64_t = "64 word"
type_synonym int64_t = "64 word"
type_synonym size_t = "64 word"

subsection \<open>JSON values (llvm/Support/JSON.h)\<close>

text \<open>
  Modelled from the spec: \<open>json::Value\<close>, \<open>json::Array\<close> and \<open>json::Object\<close> are declared
  in llvm/Support/JSON.h, outside the file verified here. A value is null, a
  boolean, an \<open>int64_t\<close>, a double, a string, an array or an object. The type \<open>'d\<close>
  stands for \<open>double\<close>: floating point is not interpreted here. An object is kept as the
  list of its key/value pairs in insertion order, each key at most once.
\<close>

datatype 'd Value =
    JNull
  | JBoolean bool
  | JInteger int64_t
  | JDouble 'd
  | JString string
  | JArray "'d Value list"
  | JObject "(string \<times> 'd Value) list"

type_synonym 'd Object = "(string \<times> 'd Value) list"

text \<open>\<open>Object::get\<close>, \<open>Object::getString\<close> and \<open>Value::getAsObject\<close>.\<close>

definition get :: "'d Object \<Rightarrow> string \<Rightarrow> 'd Value option" where
  "get Obj K = map_of Obj K"

definition getString :: "'d Object \<Rightarrow> string \<Rightarrow> string option" where
  "getString Obj K = (case get Obj K of Some (JString S) \<Rightarrow> Some S | _ \<Rightarrow> None)"

fun getAsObject :: "'d Value \<Rightarrow> 'd Object option" where
  "getAsObject (JObject Obj) = Some Obj"
| "getAsObject _ = None"

text \<open>
  \<open>try_emplace\<close> adds a key that is absent and leaves a present one alone; the
  initializer-list constructor \<open>json::Object({{K1, V1}, ...})\<close> emplaces the pairs from
  left to right. \<open>Obj[K] = V\<close> (\<open>assign\<close>) overwrites a present key and adds an absent one.
\<close>

definition try_emplace :: "string \<Rightarrow> 'd Value \<Rightarrow> 'd Object \<Rightarrow> 'd Object" where
  "try_emplace K V Obj = (case map_of Obj K of None \<Rightarrow> Obj @ [(K, V)] | Some _ \<Rightarrow> Obj)"

definition mkObject :: "(string \<times> 'd Value) list \<Rightarrow> 'd Object" where
  "mkObject Properties = foldl (\<lambda>Obj (K, V). try_emplace K V Obj) [] Properties"

fun assign :: "string \<Rightarrow> 'd Value \<Rightarrow> 'd Object \<Rightarrow> 'd Object" where
  "assign K V [] = [(K, V)]"
| "assign K V ((K', V') # Obj) =
     (if K = K' then (K, V) # Obj else (K', V') # assign K V Obj)"

subsection \<open>Coverage records (the mapping provider and the summarizer)\<close>

record CoverageSegment =
  Line :: unsigned
  Col :: unsigned
  Count :: uint64_t
  HasCount :: bool
  IsRegionEntry :: bool

datatype RegionKind = CodeRegion | ExpansionRegion | SkippedRegion | GapRegion

fun RegionKind_int64 :: "RegionKind \<Rightarrow> int64_t" where
  "RegionKind_int64 CodeRegion = 0"
| "RegionKind_int64 ExpansionRegion = 1"
| "RegionKind_int64 SkippedRegion = 2"
| "RegionKind_int64 GapRegion = 3"

record CountedRegion =
  LineStart :: unsigned
  ColumnStart :: unsigned
  LineEnd :: unsigned
  ColumnEnd :: unsigned
  ExecutionCount :: uint64_t
  FileID :: unsigned
  ExpandedFileID :: unsigned
  Kind :: RegionKind

record FunctionRecord =
  Name :: string
  Filenames :: "string list"
  CountedRegions :: "CountedRegion list"
  ExecutionCount :: uint64_t

record ExpansionRecord =
  Region :: CountedRegion
  Function :: FunctionRecord

record CoverageData =
  Segments :: "CoverageSegment list"
  getExpansions :: "ExpansionRecord list"

record CoverageMapping =
  getUniqueSourceFiles :: "string list"
  getCoverageForFile :: "string \<Rightarrow> CoverageData"
  getCoveredFunctions :: "FunctionRecord list"

record LineCoverageInfo =
  Covered :: size_t
  NumLines :: size_t

record FunctionCoverageInfo =
  Executed :: size_t
  NumFunctions :: size_t

record RegionCoverageInfo =
  Covered :: size_t
  NumRegions :: size_t

record FileCoverageSummary =
  Name :: string
  RegionCoverage :: RegionCoverageInfo
  LineCoverage :: LineCoverageInfo
  FunctionCoverage :: FunctionCoverageInfo
  InstantiationCoverage :: FunctionCoverageInfo

record CoverageViewOptions =
  ExportSummaryOnly :: bool
  SkipExpansions :: bool
  SkipFunctions :: bool
  NumThreads :: unsigned

subsection \<open>Schema renderers\<close>

definition renderSegment :: "CoverageSegment \<Rightarrow> 'd Value list" where
  "renderSegment Segment =
     [JInteger (ucast (Line Segment)), JInteger (ucast (Col Segment)),
      JInteger (Count Segment), JBoolean (HasCount Segment),
      JBoolean (IsRegionEntry Segment)]"

definition renderRegion :: "CountedRegion \<Rightarrow> 'd Value list" where
  "renderRegion R =
     [JInteger (ucast (LineStart R)), JInteger (ucast (ColumnStart R)),
      JInteger (ucast (LineEnd R)), JInteger (ucast (ColumnEnd R)),
      JInteger (CountedRegion.ExecutionCount R), JInteger (ucast (FileID R)),
      JInteger (ucast (ExpandedFileID R)), JInteger (RegionKind_int64 (Kind R))]"

text \<open>A range-for loop that pushes one rendered element per step onto an array.\<close>

definition renderRegions :: "CountedRegion list \<Rightarrow> 'd Value list" where
  "renderRegions Regions =
     foldl (\<lambda>RegionArray R. RegionArray @ [JArray (renderRegion R)]) [] Regions"

definition renderExpansion :: "ExpansionRecord \<Rightarrow> 'd Object" where
  "renderExpansion Expansion = mkObject
     [(''filenames'', JArray (map JString (Filenames (Function Expansion)))),
      (''source_region'', JArray (renderRegion (Region Expansion))),
      (''target_regions'', JArray (renderRegions (CountedRegions (Function Expansion))))]"

text \<open>
  \<open>getPercentCovered\<close> of the three summary classes returns a double computed from the
  two counters of its block; it is the parameter \<open>pct\<close> (covered first, then the count).
\<close>

definition renderSummary :: "(size_t \<Rightarrow> size_t \<Rightarrow> 'd) \<Rightarrow> FileCoverageSummary \<Rightarrow> 'd Object" where
  "renderSummary pct Summary = mkObject
     [(''lines'', JObject (mkObject
         [(''count'', JInteger (NumLines (LineCoverage Summary))),
          (''covered'', JInteger (LineCoverageInfo.Covered (LineCoverage Summary))),
          (''percent'', JDouble (pct (LineCoverageInfo.Covered (LineCoverage Summary))
                                      (NumLines (LineCoverage Summary))))])),
      (''functions'', JObject (mkObject
         [(''count'', JInteger (NumFunctions (FunctionCoverage Summary))),
          (''covered'', JInteger (Executed (FunctionCoverage Summary))),
          (''percent'', JDouble (pct (Executed (FunctionCoverage Summary))
                                      (NumFunctions (FunctionCoverage Summary))))])),
      (''instantiations'', JObject (mkObject
         [(''count'', JInteger (NumFunctions (InstantiationCoverage Summary))),
          (''covered'', JInteger (Executed (InstantiationCoverage Summary))),
          (''percent'', JDouble (pct (Executed (InstantiationCoverage Summary))
                                      (NumFunctions (InstantiationCoverage Summary))))])),
      (''regions'', JObject (mkObject
         [(''count'', JInteger (NumRegions (RegionCoverage Summary))),
          (''covered'', JInteger (RegionCoverageInfo.Covered (RegionCoverage Summary))),
          (''notcovered'', JInteger (NumRegions (RegionCoverage Summary)
                                     - RegionCoverageInfo.Covered (RegionCoverage Summary))),
          (''percent'', JDouble (pct (RegionCoverageInfo.Covered (RegionCoverage Summary))
                                      (NumRegions (RegionCoverage Summary))))]))]"

definition renderFileExpansions :: "CoverageData \<Rightarrow> FileCoverageSummary \<Rightarrow> 'd Value list" where
  "renderFileExpansions FileCoverage FileReport =
     foldl (\<lambda>ExpansionArray Expansion. ExpansionArray @ [JObject (renderExpansion Expansion)])
       [] (getExpansions FileCoverage)"

definition renderFileSegments :: "CoverageData \<Rightarrow> FileCoverageSummary \<Rightarrow> 'd Value list" where
  "renderFileSegments FileCoverage FileReport =
     foldl (\<lambda>SegmentArray Segment. SegmentArray @ [JArray (renderSegment Segment)])
       [] (Segments FileCoverage)"

definition renderFile ::
  "(size_t \<Rightarrow> size_t \<Rightarrow> 'd) \<Rightarrow> CoverageMapping \<Rightarrow> string \<Rightarrow> FileCoverageSummary \<Rightarrow>
   CoverageViewOptions \<Rightarrow> 'd Object" where
  "renderFile pct Coverage Filename FileReport Options =
     (let File = mkObject [(''filename'', JString Filename)];
          File = (if \<not> ExportSummaryOnly Options then
                    (let FileCoverage = getCoverageForFile Coverage Filename;
                         File = assign ''segments''
                                  (JArray (renderFileSegments FileCoverage FileReport)) File
                     in if \<not> SkipExpansions Options
                        then assign ''expansions''
                               (JArray (renderFileExpansions FileCoverage FileReport)) File
                        else File)
                  else File)
      in assign ''summary'' (JObject (renderSummary pct FileReport)) File)"

definition renderFunctions :: "FunctionRecord list \<Rightarrow> 'd Value list" where
  "renderFunctions Functions =
     foldl (\<lambda>FunctionArray F. FunctionArray @ [JObject (mkObject
         [(''name'', JString (FunctionRecord.Name F)),
          (''count'', JInteger (FunctionRecord.ExecutionCount F)),
          (''regions'', JArray (renderRegions (CountedRegions F))),
          (''filenames'', JArray (map JString (Filenames F)))])]) [] Functions"

subsection \<open>Failures\<close>

text \<open>
  A failed \<open>assert\<close> (of this file, of \<open>ArrayRef::operator[]\<close> or of
  \<open>Optional::getValue\<close>) aborts the export; it is the left summand of a result. A call
  that never returns is \<open>None\<close>.
\<close>

datatype error = AssertionFailed string

definition ArrayRef_index :: "'a list \<Rightarrow> unsigned \<Rightarrow> error + 'a" where
  "ArrayRef_index xs I =
     (if unat I < length xs then Inr (xs ! unat I) else Inl (AssertionFailed ''Invalid index!''))"

subsection \<open>The worker pool (llvm/Support/ThreadPool.h)\<close>

text \<open>
  Modelled from the spec: \<open>llvm::ThreadPool\<close> (its constructor, \<open>async\<close> and \<open>wait\<close>) is
  declared outside the file verified here. It is a fixed-size worker pool: the submitted
  tasks wait in a queue in submission order, each of the \<open>ThreadCount\<close> workers takes
  the task at the front when it is free, tasks complete in any order, and \<open>wait\<close>
  returns once every submitted task has completed. A task of this exporter touches shared state only inside
  its critical section, so a task is a function on that state and a run of the pool is the
  order in which the critical sections are entered. With \<open>ThreadCount\<close> workers the
  tasks in flight are the first \<open>ThreadCount\<close> pending ones; the scheduler's choice among
  them is read from \<open>sched\<close> (the first one when \<open>sched\<close> is used up). A pool of no
  workers never completes a pending task, and \<open>wait\<close> does not return: \<open>None\<close>.
\<close>

definition pick :: "nat list \<Rightarrow> nat \<Rightarrow> nat" where
  "pick sched InFlight = (case sched of [] \<Rightarrow> 0 | c # _ \<Rightarrow> c mod InFlight)"

function ThreadPool_run :: "nat \<Rightarrow> nat list \<Rightarrow> ('s \<Rightarrow> 's) list \<Rightarrow> 's \<Rightarrow> 's option" where
  "ThreadPool_run ThreadCount sched [] S = Some S"
| "ThreadPool_run ThreadCount sched (T # Ts) S =
     (if ThreadCount = 0 then None
      else (let k = pick sched (min ThreadCount (length (T # Ts)))
            in ThreadPool_run ThreadCount (tl sched)
                 (take k (T # Ts) @ drop (Suc k) (T # Ts)) (((T # Ts) ! k) S)))"
  by pat_completeness auto
termination
proof (relation "measure (\<lambda>(ThreadCount, sched, Tasks, S). length Tasks)")
  show "wf (measure (\<lambda>(ThreadCount, sched, Tasks, S). length Tasks))"
    by simp
next
  fix ThreadCount :: nat and sched :: "nat list" and T :: "'s \<Rightarrow> 's" and Ts S k
  assume "ThreadCount \<noteq> 0" and k: "k = pick sched (min ThreadCount (length (T # Ts)))"
  then have "k < length (T # Ts)"
    by (cases sched) (auto simp: pick_def intro: less_le_trans [OF mod_less_divisor])
  then show "((ThreadCount, tl sched, take k (T # Ts) @ drop (Suc k) (T # Ts), ((T # Ts) ! k) S),
              (ThreadCount, sched, T # Ts, S))
             \<in> measure (\<lambda>(ThreadCount, sched, Tasks, S). length Tasks)"
    by auto
qed

subsection \<open>The parallel file renderer\<close>

text \<open>
  The worker count of \<open>renderFiles\<close>; \<open>hw\<close> is what
  \<open>llvm::heavyweight_hardware_concurrency()\<close> returns, and \<open>unsigned(SourceFiles.size())\<close>
  keeps the low 32 bits of the size.
\<close>

definition renderFiles_NumThreads :: "unsigned \<Rightarrow> 'a list \<Rightarrow> CoverageViewOptions \<Rightarrow> unsigned" where
  "renderFiles_NumThreads hw SourceFiles Options =
     (if NumThreads Options = 0
      then max 1 (min hw (of_nat (length SourceFiles)))
      else NumThreads Options)"

text \<open>
  The submission loop \<open>for (unsigned I = 0, E = SourceFiles.size(); I < E; ++I)\<close>: each
  round binds \<open>SourceFiles[I]\<close> and \<open>FileReports[I]\<close> and submits one task, which
  renders the file and pushes the object onto the shared array under the lock.
\<close>

function renderFiles_loop ::
  "(size_t \<Rightarrow> size_t \<Rightarrow> 'd) \<Rightarrow> CoverageMapping \<Rightarrow> string list \<Rightarrow> FileCoverageSummary list \<Rightarrow>
   CoverageViewOptions \<Rightarrow> unsigned \<Rightarrow> unsigned \<Rightarrow> ('d Value list \<Rightarrow> 'd Value list) list \<Rightarrow>
   error + ('d Value list \<Rightarrow> 'd Value list) list" where
  "renderFiles_loop pct Coverage SourceFiles FileReports Options I E Tasks =
     (if I < E then
        (case ArrayRef_index SourceFiles I of
           Inl e \<Rightarrow> Inl e
         | Inr SourceFile \<Rightarrow>
             (case ArrayRef_index FileReports I of
                Inl e \<Rightarrow> Inl e
              | Inr FileReport \<Rightarrow>
                  renderFiles_loop pct Coverage SourceFiles FileReports Options (I + 1) E
                    (Tasks @ [\<lambda>FileArray. FileArray @
                       [JObject (renderFile pct Coverage SourceFile FileReport Options)]])))
      else Inr Tasks)"
  by pat_completeness auto
termination
proof (relation "measure (\<lambda>(pct, Coverage, SourceFiles, FileReports, Options, I, E, Tasks).
                            unat E - unat I)")
  show "wf (measure (\<lambda>(pct, Coverage, SourceFiles, FileReports, Options, I, E, Tasks).
                            unat E - unat I))"
    by simp
next
  fix pct :: "size_t \<Rightarrow> size_t \<Rightarrow> 'd" and Coverage :: CoverageMapping
    and SourceFiles :: "string list" and FileReports :: "FileCoverageSummary list"
    and Options :: CoverageViewOptions and I E :: unsigned
    and Tasks :: "('d Value list \<Rightarrow> 'd Value list) list"
    and SourceFile :: string and FileReport :: FileCoverageSummary
  assume "I < E"
  then have "unat I < unat E"
    by (simp add: word_less_nat_alt)
  moreover have "unat (I + 1) = Suc (unat I)"
    using \<open>I < E\<close> by unat_arith
  ultimately show
    "((pct, Coverage, SourceFiles, FileReports, Options, I + 1, E,
       Tasks @ [\<lambda>FileArray. FileArray @
          [JObject (renderFile pct Coverage SourceFile FileReport Options)]]),
      (pct, Coverage, SourceFiles, FileReports, Options, I, E, Tasks))
     \<in> measure (\<lambda>(pct, Coverage, SourceFiles, FileReports, Options, I, E, Tasks).
                  unat E - unat I)"
    by simp
qed

text \<open>
  \<open>renderFiles\<close>: the pool is built with the worker count, the loop submits the tasks,
  \<open>Pool.wait()\<close> blocks until all of them are done, and the shared array is returned.
\<close>

definition renderFiles ::
  "unsigned \<Rightarrow> nat list \<Rightarrow> (size_t \<Rightarrow> size_t \<Rightarrow> 'd) \<Rightarrow> CoverageMapping \<Rightarrow> string list \<Rightarrow>
   FileCoverageSummary list \<Rightarrow> CoverageViewOptions \<Rightarrow> (error + 'd Value list) option" where
  "renderFiles hw sched pct Coverage SourceFiles FileReports Options =
     (let NumThreads = renderFiles_NumThreads hw SourceFiles Options
      in case renderFiles_loop pct Coverage SourceFiles FileReports Options
                0 (of_nat (length SourceFiles)) [] of
           Inl e \<Rightarrow> Some (Inl e)
         | Inr Tasks \<Rightarrow>
             (case ThreadPool_run (unat NumThreads) sched Tasks [] of
                None \<Rightarrow> None
              | Some FileArray \<Rightarrow> Some (Inr FileArray)))"

subsection \<open>Sorting the files by name\<close>

text \<open>
  Modelled from the spec: \<open>StringRef::compare\<close> (llvm/ADT/StringRef.h) is declared
  outside the file verified here. It is the byte-wise comparison: \<open>memcmp\<close> on the common prefix
  (bytes read as unsigned), then the shorter string first; the result is -1, 0 or 1.
\<close>

fun compareMemory :: "string \<Rightarrow> string \<Rightarrow> int" where
  "compareMemory (a # as) (b # bs) =
     (if (of_char a :: nat) < of_char b then - 1
      else if (of_char b :: nat) < of_char a then 1
      else compareMemory as bs)"
| "compareMemory _ _ = 0"

definition StringRef_compare :: "string \<Rightarrow> string \<Rightarrow> int" where
  "StringRef_compare LHS RHS =
     (let Res = compareMemory (take (min (length LHS) (length RHS)) LHS)
                              (take (min (length LHS) (length RHS)) RHS)
      in if Res \<noteq> 0 then (if Res < 0 then - 1 else 1)
         else if length LHS = length RHS then 0
         else if length LHS < length RHS then - 1 else 1)"

text \<open>The comparator handed to \<open>std::sort\<close> in \<open>renderRoot\<close>.\<close>

definition compareFilenames :: "'d Value \<Rightarrow> 'd Value \<Rightarrow> error + bool" where
  "compareFilenames A B =
     (case getAsObject A of
        None \<Rightarrow> Inl (AssertionFailed ''Value A was not an Object'')
      | Some ObjA \<Rightarrow>
          (case getAsObject B of
             None \<Rightarrow> Inl (AssertionFailed ''Value B was not an Object'')
           | Some ObjB \<Rightarrow>
               (case getString ObjA ''filename'' of
                  None \<Rightarrow> Inl (AssertionFailed ''hasVal'')
                | Some FilenameA \<Rightarrow>
                    (case getString ObjB ''filename'' of
                       None \<Rightarrow> Inl (AssertionFailed ''hasVal'')
                     | Some FilenameB \<Rightarrow> Inr (StringRef_compare FilenameA FilenameB < 0)))))"

text \<open>
  \<open>std::sort\<close> with a comparator that can fail. The standard fixes the result (a
  permutation of the input in which no element is less than an earlier one), not the
  algorithm; the algorithm here is insertion from the right, and
  \<open>sorted_permutation_unique\<close> below shows that on arrays whose names are pairwise
  different every algorithm with that result returns the same array.
\<close>

fun sort_insert :: "('a \<Rightarrow> 'a \<Rightarrow> error + bool) \<Rightarrow> 'a \<Rightarrow> 'a list \<Rightarrow> error + 'a list" where
  "sort_insert cmp x [] = Inr [x]"
| "sort_insert cmp x (y # ys) =
     (case cmp x y of
        Inl e \<Rightarrow> Inl e
      | Inr True \<Rightarrow> Inr (x # y # ys)
      | Inr False \<Rightarrow>
          (case sort_insert cmp x ys of Inl e \<Rightarrow> Inl e | Inr zs \<Rightarrow> Inr (y # zs)))"

fun std_sort :: "('a \<Rightarrow> 'a \<Rightarrow> error + bool) \<Rightarrow> 'a list \<Rightarrow> error + 'a list" where
  "std_sort cmp [] = Inr []"
| "std_sort cmp (x # xs) =
     (case std_sort cmp xs of Inl e \<Rightarrow> Inl e | Inr ys \<Rightarrow> sort_insert cmp x ys)"

subsection \<open>The root exporter\<close>

text \<open>
  \<open>CoverageExporterJson::renderRoot(ArrayRef<std::string>)\<close>. The summarizer
  \<open>CoverageReport::prepareFileReports\<close> is a parameter: it returns the per-file reports
  and the totals for the file list. The result is the document written to the output
  stream.
\<close>

definition renderRoot ::
  "unsigned \<Rightarrow> nat list \<Rightarrow> (size_t \<Rightarrow> size_t \<Rightarrow> 'd) \<Rightarrow>
   (string list \<Rightarrow> FileCoverageSummary list \<times> FileCoverageSummary) \<Rightarrow>
   CoverageMapping \<Rightarrow> CoverageViewOptions \<Rightarrow> string list \<Rightarrow> (error + 'd Value) option" where
  "renderRoot hw sched pct prepareFileReports Coverage Options SourceFiles =
     (let (FileReports, Totals) = prepareFileReports SourceFiles
      in case renderFiles hw sched pct Coverage SourceFiles FileReports Options of
           None \<Rightarrow> None
         | Some (Inl e) \<Rightarrow> Some (Inl e)
         | Some (Inr Files) \<Rightarrow>
             (case std_sort compareFilenames Files of
                Inl e \<Rightarrow> Some (Inl e)
              | Inr Files \<Rightarrow>
                  (let Export = mkObject [(''files'', JArray Files),
                                          (''totals'', JObject (renderSummary pct Totals))];
                       Export = (if \<not> ExportSummaryOnly Options \<and> \<not> SkipFunctions Options
                                 then assign ''functions''
                                        (JArray (renderFunctions (getCoveredFunctions Coverage)))
                                        Export
                                 else Export);
                       ExportArray = [JObject Export]
                   in Some (Inr (JObject (mkObject
                        [(''version'', JString ''2.0.0''),
                         (''type'', JString ''llvm.coverage.json.export''),
                         (''data'', JArray ExportArray)]))))))"

text \<open>
  \<open>CoverageExporterJson::renderRoot(const CoverageFilters &)\<close>: the unique source files
  that no ignore filter matches, in the provider's order.
\<close>

definition renderRoot_filters ::
  "unsigned \<Rightarrow> nat list \<Rightarrow> (size_t \<Rightarrow> size_t \<Rightarrow> 'd) \<Rightarrow>
   (string list \<Rightarrow> FileCoverageSummary list \<times> FileCoverageSummary) \<Rightarrow>
   CoverageMapping \<Rightarrow> CoverageViewOptions \<Rightarrow> (string \<Rightarrow> bool) \<Rightarrow> (error + 'd Value) option" where
  "renderRoot_filters hw sched pct prepareFileReports Coverage Options matchesFilename =
     renderRoot hw sched pct prepareFileReports Coverage Options
       (foldl (\<lambda>SourceFiles SF. if \<not> matchesFilename SF then SourceFiles @ [SF] else SourceFiles)
          [] (getUniqueSourceFiles Coverage))"

subsection \<open>Reading a document\<close>

text \<open>
  How a consumer reads the export: \<open>getObject\<close>, \<open>getArray\<close> and \<open>getInteger\<close> of
  \<open>json::Object\<close> (an integer is read as the value of its \<open>int64_t\<close>), the export
  object inside the one-element \<open>data\<close> array, its \<open>files\<close> array, the \<open>filename\<close>
  of a file object, and one number of a summary block.
\<close>

definition getObject :: "'d Object \<Rightarrow> string \<Rightarrow> 'd Object option" where
  "getObject Obj K = (case get Obj K of Some (JObject O') \<Rightarrow> Some O' | _ \<Rightarrow> None)"

definition getArray :: "'d Object \<Rightarrow> string \<Rightarrow> 'd Value list option" where
  "getArray Obj K = (case get Obj K of Some (JArray A) \<Rightarrow> Some A | _ \<Rightarrow> None)"

definition getInteger :: "'d Object \<Rightarrow> string \<Rightarrow> int option" where
  "getInteger Obj K = (case get Obj K of Some (JInteger I) \<Rightarrow> Some (sint I) | _ \<Rightarrow> None)"

definition documentExport :: "'d Value \<Rightarrow> 'd Object option" where
  "documentExport Doc =
     (case getAsObject Doc of
        None \<Rightarrow> None
      | Some Root \<Rightarrow>
          (case getArray Root ''data'' of
             Some [JObject Export] \<Rightarrow> Some Export
           | _ \<Rightarrow> None))"

definition documentFiles :: "'d Value \<Rightarrow> 'd Value list option" where
  "documentFiles Doc =
     (case documentExport Doc of None \<Rightarrow> None | Some Export \<Rightarrow> getArray Export ''files'')"

definition filenameOf :: "'d Value \<Rightarrow> string option" where
  "filenameOf V = (case getAsObject V of None \<Rightarrow> None | Some Obj \<Rightarrow> getString Obj ''filename'')"

definition metric :: "'d Object \<Rightarrow> string \<Rightarrow> string \<Rightarrow> int option" where
  "metric Summary Block K =
     (case getObject Summary Block of None \<Rightarrow> None | Some B \<Rightarrow> getInteger B K)"

subsection \<open>The sequential rendering\<close>

text \<open>
  What a single thread would produce: the file objects of the paired filename/summary
  list, in the order of the list.
\<close>

definition renderFiles_sequential ::
  "(size_t \<Rightarrow> size_t \<Rightarrow> 'd) \<Rightarrow> CoverageMapping \<Rightarrow> string list \<Rightarrow> FileCoverageSummary list \<Rightarrow>
   CoverageViewOptions \<Rightarrow> 'd Value list" where
  "renderFiles_sequential pct Coverage SourceFiles FileReports Options =
     map (\<lambda>(SourceFile, FileReport).
            JObject (renderFile pct Coverage SourceFile FileReport Options))
       (zip SourceFiles FileReports)"

subsection \<open>Checks on an emitted summary\<close>

text \<open>
  The summarizer's invariant on a summary (in every block the covered counter is at most
  the total), the condition that every total is below \<open>2 ^ 63\<close>, and three checks on
  a rendered summary object: \<open>covered \<le> count\<close> in a block, and \<open>notcovered\<close> of the
  regions block equal to \<open>count - covered\<close>, exactly and modulo \<open>2 ^ 64\<close>.
\<close>

definition summaryInvariant :: "FileCoverageSummary \<Rightarrow> bool" where
  "summaryInvariant Summary =
     (LineCoverageInfo.Covered (LineCoverage Summary) \<le> NumLines (LineCoverage Summary)
      \<and> Executed (FunctionCoverage Summary) \<le> NumFunctions (FunctionCoverage Summary)
      \<and> Executed (InstantiationCoverage Summary) \<le> NumFunctions (InstantiationCoverage Summary)
      \<and> RegionCoverageInfo.Covered (RegionCoverage Summary) \<le> NumRegions (RegionCoverage Summary))"

definition countsFitInt64 :: "FileCoverageSummary \<Rightarrow> bool" where
  "countsFitInt64 Summary =
     (NumLines (LineCoverage Summary) < 2 ^ 63
      \<and> NumFunctions (FunctionCoverage Summary) < 2 ^ 63
      \<and> NumFunctions (InstantiationCoverage Summary) < 2 ^ 63
      \<and> NumRegions (RegionCoverage Summary) < 2 ^ 63)"

definition coveredAtMostCount :: "'d Object \<Rightarrow> string \<Rightarrow> bool" where
  "coveredAtMostCount Summary Block =
     (case (metric Summary Block ''count'', metric Summary Block ''covered'') of
        (Some cnt, Some covered) \<Rightarrow> covered \<le> cnt
      | _ \<Rightarrow> False)"

definition notcoveredExact :: "'d Object \<Rightarrow> bool" where
  "notcoveredExact Summary =
     (case (metric Summary ''regions'' ''count'', metric Summary ''regions'' ''covered'',
            metric Summary ''regions'' ''notcovered'') of
        (Some cnt, Some covered, Some notcovered) \<Rightarrow> notcovered = cnt - covered
      | _ \<Rightarrow> False)"

definition notcoveredWrapped :: "'d Object \<Rightarrow> bool" where
  "notcoveredWrapped Summary =
     (case (metric Summary ''regions'' ''count'', metric Summary ''regions'' ''covered'',
            metric Summary ''regions'' ''notcovered'') of
        (Some cnt, Some covered, Some notcovered) \<Rightarrow>
          (cnt - covered - notcovered) mod 2 ^ 64 = 0
      | _ \<Rightarrow> False)"

subsection \<open>Example inputs\<close>

text \<open>
  \<open>FileCoverageSummary_init\<close> is the constructor \<open>FileCoverageSummary(Name)\<close>: all counters
  zero. The example mapping has the files \<open>b.c\<close> and \<open>a.c\<close>, the second with one
  segment. \<open>overflowSummary\<close> has totals of \<open>2 ^ 63\<close>, and \<open>manyFiles\<close> is a list of
  \<open>2 ^ 32\<close> pairwise different names. \<open>examplePrepare\<close> is a summarizer that reports
  zero coverage for every file, and \<open>exampleDocument\<close> is the export of the example.
\<close>

definition FileCoverageSummary_init :: "string \<Rightarrow> FileCoverageSummary" where
  "FileCoverageSummary_init N =
     \<lparr>Name = N,
      RegionCoverage = \<lparr>Covered = 0, NumRegions = 0\<rparr>,
      LineCoverage = \<lparr>LineCoverageInfo.Covered = 0, NumLines = 0\<rparr>,
      FunctionCoverage = \<lparr>Executed = 0, NumFunctions = 0\<rparr>,
      InstantiationCoverage = \<lparr>Executed = 0, NumFunctions = 0\<rparr>\<rparr>"

definition noPercent :: "size_t \<Rightarrow> size_t \<Rightarrow> unit" where
  "noPercent covered cnt = ()"

definition exampleCoverage :: CoverageMapping where
  "exampleCoverage =
     \<lparr>getUniqueSourceFiles = [''b.c'', ''a.c''],
      getCoverageForFile = (\<lambda>Filename.
        if Filename = ''a.c''
        then \<lparr>Segments = [\<lparr>Line = 10, Col = 1, Count = 5, HasCount = True,
                            IsRegionEntry = True\<rparr>],
              getExpansions = []\<rparr>
        else \<lparr>Segments = [], getExpansions = []\<rparr>),
      getCoveredFunctions = []\<rparr>"

definition exampleOptions :: CoverageViewOptions where
  "exampleOptions =
     \<lparr>ExportSummaryOnly = False, SkipExpansions = False, SkipFunctions = False,
      NumThreads = 0\<rparr>"

definition exampleSummary :: FileCoverageSummary where
  "exampleSummary =
     \<lparr>Name = ''a.c'',
      RegionCoverage = \<lparr>Covered = 2, NumRegions = 3\<rparr>,
      LineCoverage = \<lparr>LineCoverageInfo.Covered = 7, NumLines = 9\<rparr>,
      FunctionCoverage = \<lparr>Executed = 1, NumFunctions = 1\<rparr>,
      InstantiationCoverage = \<lparr>Executed = 1, NumFunctions = 2\<rparr>\<rparr>"

definition overflowSummary :: FileCoverageSummary where
  "overflowSummary =
     \<lparr>Name = ''a.c'',
      RegionCoverage = \<lparr>Covered = 1, NumRegions = 2 ^ 63\<rparr>,
      LineCoverage = \<lparr>LineCoverageInfo.Covered = 1, NumLines = 2 ^ 63\<rparr>,
      FunctionCoverage = \<lparr>Executed = 0, NumFunctions = 0\<rparr>,
      InstantiationCoverage = \<lparr>Executed = 0, NumFunctions = 0\<rparr>\<rparr>"

definition manyFiles :: "string list" where
  "manyFiles = map (\<lambda>n. replicate (Suc n) (CHR ''a'')) [0..<2 ^ 32]"

definition examplePrepare :: "string list \<Rightarrow> FileCoverageSummary list \<times> FileCoverageSummary" where
  "examplePrepare SourceFiles =
     (map FileCoverageSummary_init SourceFiles, FileCoverageSummary_init ''Totals'')"

definition exampleDocument :: "unit Value" where
  "exampleDocument = JObject
     [(''version'', JString ''2.0.0''),
      (''type'', JString ''llvm.coverage.json.export''),
      (''data'', JArray [JObject
         [(''files'', JArray
             [JObject (renderFile noPercent exampleCoverage ''a.c''
                (FileCoverageSummary_init ''a.c'') exampleOptions),
              JObject (renderFile noPercent exampleCoverage ''b.c''
                (FileCoverageSummary_init ''b.c'') exampleOptions)]),
          (''totals'', JObject (renderSummary noPercent (FileCoverageSummary_init ''Totals''))),
          (''functions'', JArray [])]])]"

section \<open>Properties\<close>

subsection \<open>Arrays, objects and the renderers\<close>

declare renderFiles_loop.simps [simp del]

lemma foldl_push_back: "foldl (\<lambda>Array x. Array @ [f x]) Array xs = Array @ map f xs"
  by (induction xs arbitrary: Array) simp_all

lemma renderSummary_unfold:
  "renderSummary pct Summary =
     [(''lines'', JObject
         [(''count'', JInteger (NumLines (LineCoverage Summary))),
          (''covered'', JInteger (LineCoverageInfo.Covered (LineCoverage Summary))),
          (''percent'', JDouble (pct (LineCoverageInfo.Covered (LineCoverage Summary))
                                      (NumLines (LineCoverage Summary))))]),
      (''functions'', JObject
         [(''count'', JInteger (NumFunctions (FunctionCoverage Summary))),
          (''covered'', JInteger (Executed (FunctionCoverage Summary))),
          (''percent'', JDouble (pct (Executed (FunctionCoverage Summary))
                                      (NumFunctions (FunctionCoverage Summary))))]),
      (''instantiations'', JObject
         [(''count'', JInteger (NumFunctions (InstantiationCoverage Summary))),
          (''covered'', JInteger (Executed (InstantiationCoverage Summary))),
          (''percent'', JDouble (pct (Executed (InstantiationCoverage Summary))
                                      (NumFunctions (InstantiationCoverage Summary))))]),
      (''regions'', JObject
         [(''count'', JInteger (NumRegions (RegionCoverage Summary))),
          (''covered'', JInteger (RegionCoverageInfo.Covered (RegionCoverage Summary))),
          (''notcovered'', JInteger (NumRegions (RegionCoverage Summary)
                                     - RegionCoverageInfo.Covered (RegionCoverage Summary))),
          (''percent'', JDouble (pct (RegionCoverageInfo.Covered (RegionCoverage Summary))
                                      (NumRegions (RegionCoverage Summary))))])]"
  by (simp add: renderSummary_def mkObject_def try_emplace_def)

lemma metric_renderSummary:
  "metric (renderSummary pct Summary) ''lines'' ''count''
     = Some (sint (NumLines (LineCoverage Summary)))"
  "metric (renderSummary pct Summary) ''lines'' ''covered''
     = Some (sint (LineCoverageInfo.Covered (LineCoverage Summary)))"
  "metric (renderSummary pct Summary) ''functions'' ''count''
     = Some (sint (NumFunctions (FunctionCoverage Summary)))"
  "metric (renderSummary pct Summary) ''functions'' ''covered''
     = Some (sint (Executed (FunctionCoverage Summary)))"
  "metric (renderSummary pct Summary) ''instantiations'' ''count''
     = Some (sint (NumFunctions (InstantiationCoverage Summary)))"
  "metric (renderSummary pct Summary) ''instantiations'' ''covered''
     = Some (sint (Executed (InstantiationCoverage Summary)))"
  "metric (renderSummary pct Summary) ''regions'' ''count''
     = Some (sint (NumRegions (RegionCoverage Summary)))"
  "metric (renderSummary pct Summary) ''regions'' ''covered''
     = Some (sint (RegionCoverageInfo.Covered (RegionCoverage Summary)))"
  "metric (renderSummary pct Summary) ''regions'' ''notcovered''
     = Some (sint (NumRegions (RegionCoverage Summary)
                   - RegionCoverageInfo.Covered (RegionCoverage Summary)))"
  by (simp_all add: renderSummary_unfold metric_def getObject_def getInteger_def get_def)

lemma length_manyFiles: "length manyFiles = 2 ^ 32"
  by (simp add: manyFiles_def del: upt_Suc)

lemma distinct_manyFiles: "distinct manyFiles"
proof -
  have "inj (\<lambda>n. replicate (Suc n) (CHR ''a''))"
    by (rule injI) (metis length_replicate nat.inject)
  then show ?thesis
    unfolding manyFiles_def by (simp add: distinct_map inj_on_def del: upt_Suc replicate_Suc)
qed

subsection \<open>The pool, the loop and the sort\<close>
lemma remove_nth_mset:
  "k < length vs \<Longrightarrow> mset (take k vs @ drop (Suc k) vs) + {#vs ! k#} = mset vs"
proof -
  assume "k < length vs"
  then have "vs = take k vs @ vs ! k # drop (Suc k) vs"
    by (rule id_take_nth_drop)
  then have "mset vs = mset (take k vs @ vs ! k # drop (Suc k) vs)"
    by simp
  then show ?thesis by simp
qed

lemma pick_less: "0 < w \<Longrightarrow> pick sched w < w"
  by (cases sched) (simp_all add: pick_def)

lemma ThreadPool_run_step:
  "ThreadCount \<noteq> 0 \<Longrightarrow> Tasks \<noteq> [] \<Longrightarrow>
   ThreadPool_run ThreadCount sched Tasks S =
     ThreadPool_run ThreadCount (tl sched)
       (take (pick sched (min ThreadCount (length Tasks))) Tasks
        @ drop (Suc (pick sched (min ThreadCount (length Tasks)))) Tasks)
       ((Tasks ! pick sched (min ThreadCount (length Tasks))) S)"
  by (cases Tasks) (simp_all add: Let_def)

lemma ThreadPool_run_pushes:
  "ThreadCount \<noteq> 0 \<Longrightarrow>
   \<exists>ys. ThreadPool_run ThreadCount sched (map (\<lambda>v A. A @ [v]) vs) S = Some (S @ ys)
        \<and> mset ys = mset vs"
proof (induction "length vs" arbitrary: vs sched S)
  case 0
  then show ?case by simp
next
  case (Suc n)
  then obtain v vs' where vs: "vs = v # vs'"
    by (cases vs) auto
  define k where "k = pick sched (min ThreadCount (length vs))"
  have k: "k < length vs"
    using Suc.prems vs pick_less [of "min ThreadCount (length vs)" sched]
    by (simp add: k_def)
  define rest where "rest = take k vs @ drop (Suc k) vs"
  have len: "n = length rest"
    using Suc.hyps(2) k by (simp add: rest_def)
  from Suc.hyps(1) [OF len Suc.prems, of "tl sched" "S @ [vs ! k]"]
  obtain ys where ys: "ThreadPool_run ThreadCount (tl sched) (map (\<lambda>v A. A @ [v]) rest)
        (S @ [vs ! k]) = Some ((S @ [vs ! k]) @ ys)" "mset ys = mset rest"
    by blast
  have step: "ThreadPool_run ThreadCount sched (map (\<lambda>v A. A @ [v]) vs) S =
        ThreadPool_run ThreadCount (tl sched) (map (\<lambda>v A. A @ [v]) rest) (S @ [vs ! k])"
  proof -
    have "map (\<lambda>v A. A @ [v]) vs \<noteq> []"
      using k by auto
    from ThreadPool_run_step [OF Suc.prems this, of sched S] show ?thesis
      using k by (simp add: rest_def k_def take_map drop_map)
  qed
  have "mset (vs ! k # ys) = mset vs"
    using ys(2) remove_nth_mset [OF k] by (simp add: rest_def)
  with step ys(1) show ?case
    by (intro exI [of _ "vs ! k # ys"]) simp
qed



text \<open>
  One worker completes the tasks in submission order; as many workers as tasks can complete
  them in every order; no worker completes nothing.
\<close>

lemma ThreadPool_run_single:
  "ThreadPool_run 1 sched (map (\<lambda>v A. A @ [v]) vs) S = Some (S @ vs)"
proof (induction vs arbitrary: sched S)
  case Nil
  then show ?case by simp
next
  case (Cons v vs)
  have "pick sched 1 = 0"
    using pick_less [of 1 sched] by simp
  then show ?case
    using Cons [of "tl sched" "S @ [v]"] by simp
qed

lemma ThreadPool_run_any_order:
  "mset ys = mset vs \<Longrightarrow> length vs \<le> ThreadCount \<Longrightarrow>
   \<exists>sched. ThreadPool_run ThreadCount sched (map (\<lambda>v A. A @ [v]) vs) S = Some (S @ ys)"
proof (induction ys arbitrary: vs S)
  case Nil
  then show ?case by simp
next
  case (Cons y ys)
  from Cons.prems(1) have "y \<in> set vs"
    by (metis list.set_intros(1) mset_eq_setD)
  then obtain k where k: "k < length vs" "vs ! k = y"
    by (auto simp: in_set_conv_nth)
  define rest where "rest = take k vs @ drop (Suc k) vs"
  have "mset rest + {#vs ! k#} = mset vs"
    unfolding rest_def using k(1) by (rule remove_nth_mset)
  with Cons.prems(1) k(2) have "add_mset y (mset ys) = add_mset y (mset rest)"
    by simp
  then have perm: "mset ys = mset rest"
    by (simp only: add_mset_add_mset_same_iff)
  have short: "length rest \<le> ThreadCount"
    using Cons.prems(2) k(1) by (simp add: rest_def)
  from Cons.IH [OF perm short, of "S @ [y]"] obtain sched where
    sched: "ThreadPool_run ThreadCount sched (map (\<lambda>v A. A @ [v]) rest) (S @ [y])
      = Some ((S @ [y]) @ ys)"
    by blast
  have nz: "ThreadCount \<noteq> 0"
    using Cons.prems(2) k(1) by auto
  have ne: "map (\<lambda>v A. A @ [v]) vs \<noteq> []"
    using k(1) by auto
  have pk: "pick (k # sched) (min ThreadCount (length vs)) = k"
    using Cons.prems(2) k(1) by (simp add: pick_def min_def)
  have "ThreadPool_run ThreadCount (k # sched) (map (\<lambda>v A. A @ [v]) vs) S
      = ThreadPool_run ThreadCount sched (map (\<lambda>v A. A @ [v]) rest) (S @ [y])"
    using k by (simp add: ThreadPool_run_step [OF nz ne] pk rest_def take_map drop_map)
  with sched show ?case
    by (intro exI [of _ "k # sched"]) simp
qed

lemma ThreadPool_run_no_workers:
  "Tasks \<noteq> [] \<Longrightarrow> ThreadPool_run 0 sched Tasks S = None"
  by (cases Tasks) simp_all

lemma StringRef_compare_Nil:
  "StringRef_compare [] RHS = (if RHS = [] then 0 else - 1)"
  "StringRef_compare LHS [] = (if LHS = [] then 0 else 1)"
  by (simp_all add: StringRef_compare_def)

lemma StringRef_compare_Cons:
  "StringRef_compare (a # as) (b # bs) =
     (if (of_char a :: nat) < of_char b then - 1
      else if (of_char b :: nat) < of_char a then 1
      else StringRef_compare as bs)"
  by (simp add: StringRef_compare_def Let_def)

lemma StringRef_compare_less: "(StringRef_compare LHS RHS < 0) = (LHS < RHS)"
proof (induction LHS RHS rule: list_induct2')
  case (4 a as b bs)
  have "(of_char a :: nat) = of_char b \<longleftrightarrow> a = b"
    by simp
  with 4 show ?case
    by (auto simp: StringRef_compare_Cons less_char_def)
qed (simp_all add: StringRef_compare_Nil)

lemma compareFilenames_named:
  "filenameOf A = Some a \<Longrightarrow> filenameOf B = Some b \<Longrightarrow> compareFilenames A B = Inr (a < b)"
  by (auto simp: filenameOf_def compareFilenames_def StringRef_compare_less split: option.splits)

text \<open>On other values the comparator does fail.\<close>

lemma compareFilenames_fails:
  "compareFilenames JNull B = Inl (AssertionFailed ''Value A was not an Object'')"
  "compareFilenames (JObject Obj) (JArray Bs) = Inl (AssertionFailed ''Value B was not an Object'')"
  "compareFilenames (JObject []) (JObject Obj) = Inl (AssertionFailed ''hasVal'')"
  by (simp_all add: compareFilenames_def getString_def get_def)

lemma sort_insert_sorted:
  assumes cmp: "\<And>x y. x \<in> A \<Longrightarrow> y \<in> A \<Longrightarrow> cmp x y = Inr (key x < key y)"
  shows "x \<in> A \<Longrightarrow> set ys \<subseteq> A \<Longrightarrow>
         \<exists>zs. sort_insert cmp x ys = Inr zs \<and> mset zs = add_mset x (mset ys)
            \<and> (sorted (map key ys) \<longrightarrow> sorted (map (key :: 'a \<Rightarrow> 'k :: linorder) zs))"
proof (induction ys)
  case Nil
  then show ?case by simp
next
  case (Cons y ys)
  then have c: "cmp x y = Inr (key x < key y)"
    by (simp add: cmp)
  show ?case
  proof (cases "key x < key y")
    case True
    with c show ?thesis by auto
  next
    case False
    from Cons obtain zs where zs: "sort_insert cmp x ys = Inr zs"
      "mset zs = add_mset x (mset ys)" "sorted (map key ys) \<longrightarrow> sorted (map key zs)"
      by auto
    have "set zs = insert x (set ys)"
      using zs(2) by (metis set_mset_add_mset_insert set_mset_mset)
    with False c zs show ?thesis
      by auto
  qed
qed

lemma std_sort_sorted:
  assumes cmp: "\<And>x y. x \<in> A \<Longrightarrow> y \<in> A \<Longrightarrow> cmp x y = Inr (key x < key y)"
  shows "set xs \<subseteq> A \<Longrightarrow>
         \<exists>ys. std_sort cmp xs = Inr ys \<and> mset ys = mset xs
            \<and> sorted (map (key :: 'a \<Rightarrow> 'k :: linorder) ys)"
proof (induction xs)
  case Nil
  then show ?case by simp
next
  case (Cons x xs)
  then obtain ys where ys: "std_sort cmp xs = Inr ys" "mset ys = mset xs" "sorted (map key ys)"
    by auto
  have "set ys \<subseteq> A"
    using ys(2) Cons.prems by (metis set_mset_mset set_subset_Cons subset_trans)
  with sort_insert_sorted [of A cmp key x ys, OF cmp] Cons.prems ys show ?case
    by auto
qed

lemma sorted_permutation_unique:
  fixes key :: "'a \<Rightarrow> 'k :: linorder"
  assumes "mset ys = mset zs" and "distinct (map key ys)"
    and "sorted (map key ys)" and "sorted (map key zs)"
  shows "ys = zs"
proof -
  have set: "set ys = set zs"
    using assms(1) by (rule mset_eq_setD)
  have "mset (map key ys) = mset (map key zs)"
    using assms(1) by simp
  then have dz: "distinct (map key zs)"
    using assms(2) by (metis mset_eq_imp_distinct_iff)
  have "inj_on key (set ys \<union> set zs)"
    using assms(2) set by (simp add: distinct_map)
  then show ?thesis
    using assms(3) assms(2) assms(4) dz set by (rule map_sorted_distinct_set_unique)
qed


lemma renderFiles_loop_result:
  "I \<le> E \<Longrightarrow> unat E \<le> length SourceFiles \<Longrightarrow>
   renderFiles_loop pct Coverage SourceFiles FileReports Options I E Tasks =
     (if I < E \<and> length FileReports < unat E
      then Inl (AssertionFailed ''Invalid index!'')
      else Inr (Tasks @ map (\<lambda>i FileArray. FileArray @
            [JObject (renderFile pct Coverage (SourceFiles ! i) (FileReports ! i) Options)])
          [unat I..<unat E]))"
proof (induction pct Coverage SourceFiles FileReports Options I E Tasks
    rule: renderFiles_loop.induct)
  case (1 pct Coverage SourceFiles FileReports Options I E Tasks)
  show ?case
  proof (cases "I < E")
    case False
    with "1.prems"(1) have "I = E" by simp
    then show ?thesis
      by (subst renderFiles_loop.simps) simp
  next
    case True
    then have lt: "unat I < unat E"
      by (simp add: word_less_nat_alt)
    have suc: "unat (I + 1) = Suc (unat I)"
      using True by unat_arith
    have le: "I + 1 \<le> E"
      using True by (rule inc_le)
    have sf: "ArrayRef_index SourceFiles I = Inr (SourceFiles ! unat I)"
      using lt "1.prems"(2) by (simp add: ArrayRef_index_def)
    show ?thesis
    proof (cases "unat I < length FileReports")
      case False
      then have "ArrayRef_index FileReports I = Inl (AssertionFailed ''Invalid index!'')"
        by (simp add: ArrayRef_index_def)
      with True False lt show ?thesis
        by (subst renderFiles_loop.simps) (simp add: sf)
    next
      case inrange: True
      then have fr: "ArrayRef_index FileReports I = Inr (FileReports ! unat I)"
        by (simp add: ArrayRef_index_def)
      have upt: "[unat I..<unat E] = unat I # [Suc (unat I)..<unat E]"
        using lt by (rule upt_conv_Cons)
      have "I + 1 < E \<or> I + 1 = E"
        using le by auto
      then have iff: "(I + 1 < E \<and> length FileReports < unat E) = (length FileReports < unat E)"
        using suc inrange by auto
      show ?thesis
        using "1.IH" [OF True sf fr le "1.prems"(2)] True
        by (subst renderFiles_loop.simps) (simp add: sf fr suc upt iff)
    qed
  qed
qed

lemma map_index_zip:
  "n \<le> length xs \<Longrightarrow> n \<le> length ys \<Longrightarrow>
   map (\<lambda>i. f (xs ! i) (ys ! i)) [0..<n] = take n (map (\<lambda>(x, y). f x y) (zip xs ys))"
  by (rule nth_equalityI) simp_all

lemma renderFiles_NumThreads_nonzero: "unat (renderFiles_NumThreads hw SourceFiles Options) \<noteq> 0"
proof -
  have "max 1 (min hw (of_nat (length SourceFiles))) \<noteq> (0 :: unsigned)"
    by (metis max.cobounded1 word_le_0_iff zero_neq_one)
  then show ?thesis
    by (simp add: renderFiles_NumThreads_def unat_eq_0)
qed

lemma renderFiles_result:
  fixes SourceFiles :: "string list"
  defines "n \<equiv> unat (of_nat (length SourceFiles) :: unsigned)"
  shows "if length FileReports < n
     then renderFiles hw sched pct Coverage SourceFiles FileReports Options
            = Some (Inl (AssertionFailed ''Invalid index!''))
     else \<exists>Files. renderFiles hw sched pct Coverage SourceFiles FileReports Options
            = Some (Inr Files)
          \<and> mset Files = mset (take n
              (renderFiles_sequential pct Coverage SourceFiles FileReports Options))"
proof -
  have n: "n \<le> length SourceFiles"
    by (simp add: n_def unat_of_nat)
  have zero: "(0 < (of_nat (length SourceFiles) :: unsigned)) = (0 < n)"
    by (simp add: n_def word_less_nat_alt)
  note loop = renderFiles_loop_result [of 0 "of_nat (length SourceFiles)" SourceFiles
      pct Coverage FileReports Options "[]", folded n_def, OF _ n, simplified zero]
  show ?thesis
  proof (cases "length FileReports < n")
    case True
    then show ?thesis
      by (simp add: renderFiles_def loop n_def [symmetric] Let_def)
  next
    case False
    then have fr: "n \<le> length FileReports" by simp
    have tasks: "renderFiles_loop pct Coverage SourceFiles FileReports Options 0
          (of_nat (length SourceFiles)) [] =
        Inr (map (\<lambda>v A. A @ [v])
          (take n (renderFiles_sequential pct Coverage SourceFiles FileReports Options)))"
      using False
      by (simp add: loop renderFiles_sequential_def map_index_zip [OF n fr, symmetric]
          comp_def)
    from ThreadPool_run_pushes [OF renderFiles_NumThreads_nonzero, of hw SourceFiles Options
        sched "take n (renderFiles_sequential pct Coverage SourceFiles FileReports Options)" "[]"]
    show ?thesis
      using False by (auto simp: renderFiles_def tasks Let_def)
  qed
qed


lemma renderFile_unfold:
  "renderFile pct Coverage Filename FileReport Options =
     (''filename'', JString Filename) #
     (if ExportSummaryOnly Options then []
      else (''segments'', JArray (renderFileSegments (getCoverageForFile Coverage Filename) FileReport)) #
           (if SkipExpansions Options then []
            else [(''expansions'', JArray (renderFileExpansions (getCoverageForFile Coverage Filename) FileReport))])) @
     [(''summary'', JObject (renderSummary pct FileReport))]"
  by (simp add: renderFile_def mkObject_def try_emplace_def Let_def)

lemma filenameOf_renderFile:
  "filenameOf (JObject (renderFile pct Coverage Filename FileReport Options)) = Some Filename"
  by (simp add: filenameOf_def getString_def get_def renderFile_unfold)

lemma filenameOf_sequential:
  "map filenameOf (renderFiles_sequential pct Coverage SourceFiles FileReports Options)
     = map (\<lambda>(SourceFile, FileReport). Some SourceFile) (zip SourceFiles FileReports)"
  by (simp add: renderFiles_sequential_def filenameOf_renderFile split_def)

lemma sequential_named:
  "V \<in> set (renderFiles_sequential pct Coverage SourceFiles FileReports Options) \<Longrightarrow>
   \<exists>Obj S. V = JObject Obj \<and> getString Obj ''filename'' = Some S"
  by (auto simp: renderFiles_sequential_def getString_def get_def renderFile_unfold)

lemma named_filenameOf:
  "(\<exists>Obj S. V = JObject Obj \<and> getString Obj ''filename'' = Some S) = (filenameOf V \<noteq> None)"
  by (cases V) (auto simp: filenameOf_def)

lemma compareFilenames_key:
  "A \<in> {V. filenameOf V \<noteq> None} \<Longrightarrow> B \<in> {V. filenameOf V \<noteq> None} \<Longrightarrow>
   compareFilenames A B = Inr (the (filenameOf A) < the (filenameOf B))"
  by (auto simp: compareFilenames_named)

lemma distinct_names_sequential:
  "distinct SourceFiles \<Longrightarrow>
   distinct (map (\<lambda>V. the (filenameOf V))
     (take n (renderFiles_sequential pct Coverage SourceFiles FileReports Options)))"
proof -
  assume d: "distinct SourceFiles"
  have "map (\<lambda>V. the (filenameOf V))
          (renderFiles_sequential pct Coverage SourceFiles FileReports Options)
        = map fst (zip SourceFiles FileReports)"
    by (simp add: renderFiles_sequential_def filenameOf_renderFile split_def)
  also have "\<dots> = take (min (length SourceFiles) (length FileReports)) SourceFiles"
    by (rule map_fst_zip_take)
  finally have "take n (map (\<lambda>V. the (filenameOf V))
        (renderFiles_sequential pct Coverage SourceFiles FileReports Options))
      = take n (take (min (length SourceFiles) (length FileReports)) SourceFiles)"
    by (rule arg_cong)
  then have "map (\<lambda>V. the (filenameOf V))
        (take n (renderFiles_sequential pct Coverage SourceFiles FileReports Options))
      = take n (take (min (length SourceFiles) (length FileReports)) SourceFiles)"
    by (simp only: take_map)
  with d show ?thesis
    by simp
qed

lemma std_sort_files:
  assumes "mset Files = mset (take n
      (renderFiles_sequential pct Coverage SourceFiles FileReports Options))"
  shows "\<exists>Sorted. std_sort compareFilenames Files = Inr Sorted \<and> mset Sorted = mset Files
           \<and> sorted (map (\<lambda>V. the (filenameOf V)) Sorted)"
proof -
  have "set Files = set (take n
      (renderFiles_sequential pct Coverage SourceFiles FileReports Options))"
    using assms by (rule mset_eq_setD)
  then have "set Files \<subseteq> set (renderFiles_sequential pct Coverage SourceFiles FileReports Options)"
    using set_take_subset by fastforce
  then have "set Files \<subseteq> {V. filenameOf V \<noteq> None}"
    using sequential_named [of _ pct Coverage SourceFiles FileReports Options]
    unfolding named_filenameOf by blast
  then show ?thesis
    using std_sort_sorted [of "{V. filenameOf V \<noteq> None}" compareFilenames
        "\<lambda>V. the (filenameOf V)" Files, OF compareFilenames_key]
    by blast
qed

lemma renderRoot_result:
  fixes SourceFiles :: "string list"
  defines "n \<equiv> unat (of_nat (length SourceFiles) :: unsigned)"
  shows "if length (fst (prepareFileReports SourceFiles)) < n
     then renderRoot hw sched pct prepareFileReports Coverage Options SourceFiles
            = Some (Inl (AssertionFailed ''Invalid index!''))
     else \<exists>Sorted. renderRoot hw sched pct prepareFileReports Coverage Options SourceFiles
            = Some (Inr (JObject
                [(''version'', JString ''2.0.0''),
                 (''type'', JString ''llvm.coverage.json.export''),
                 (''data'', JArray [JObject
                    ((''files'', JArray Sorted) #
                     (''totals'', JObject (renderSummary pct (snd (prepareFileReports SourceFiles)))) #
                     (if \<not> ExportSummaryOnly Options \<and> \<not> SkipFunctions Options
                      then [(''functions'',
                             JArray (renderFunctions (getCoveredFunctions Coverage)))]
                      else []))])]))
          \<and> mset Sorted = mset (take n
               (renderFiles_sequential pct Coverage SourceFiles
                  (fst (prepareFileReports SourceFiles)) Options))
          \<and> sorted (map (\<lambda>V. the (filenameOf V)) Sorted)"
proof (cases "length (fst (prepareFileReports SourceFiles)) < n")
  case True
  with renderFiles_result [of "fst (prepareFileReports SourceFiles)" SourceFiles
      hw sched pct Coverage Options]
  show ?thesis
    by (simp add: renderRoot_def n_def split_def)
next
  case False
  with renderFiles_result [of "fst (prepareFileReports SourceFiles)" SourceFiles
      hw sched pct Coverage Options]
  obtain Files where Files:
    "renderFiles hw sched pct Coverage SourceFiles (fst (prepareFileReports SourceFiles)) Options
       = Some (Inr Files)"
    "mset Files = mset (take n (renderFiles_sequential pct Coverage SourceFiles
        (fst (prepareFileReports SourceFiles)) Options))"
    by (auto simp: n_def)
  from std_sort_files [OF Files(2)] obtain Sorted where Sorted:
    "std_sort compareFilenames Files = Inr Sorted" "mset Sorted = mset Files"
    "sorted (map (\<lambda>V. the (filenameOf V)) Sorted)"
    by blast
  have "renderRoot hw sched pct prepareFileReports Coverage Options SourceFiles
      = Some (Inr (JObject
                [(''version'', JString ''2.0.0''),
                 (''type'', JString ''llvm.coverage.json.export''),
                 (''data'', JArray [JObject
                    ((''files'', JArray Sorted) #
                     (''totals'', JObject (renderSummary pct (snd (prepareFileReports SourceFiles)))) #
                     (if \<not> ExportSummaryOnly Options \<and> \<not> SkipFunctions Options
                      then [(''functions'',
                             JArray (renderFunctions (getCoveredFunctions Coverage)))]
                      else []))])]))"
    by (simp add: renderRoot_def split_def Files(1) Sorted(1) mkObject_def try_emplace_def)
  with False Sorted(2,3) Files(2) show ?thesis
    by auto
qed

subsection \<open>Signed readings of 64-bit counters\<close>


lemma sint_small: "(w :: 64 word) < 2 ^ 63 \<Longrightarrow> sint w = uint w"
proof -
  assume "w < 2 ^ 63"
  then have "uint w < 2 ^ 63"
    by (simp add: word_less_def)
  moreover have "- (2 ^ 63) \<le> uint w"
    by (rule order_trans [of _ 0]) simp_all
  ultimately have "signed_take_bit 63 (uint w) = uint w"
    by (rule signed_take_bit_int_eq_self [rotated])
  then show ?thesis
    by (simp add: sint_uint)
qed

lemma sint_le_small: "(v :: 64 word) \<le> c \<Longrightarrow> c < 2 ^ 63 \<Longrightarrow> sint v \<le> sint c"
proof -
  assume le: "v \<le> c" and c: "c < 2 ^ 63"
  then have "v < 2 ^ 63" by simp
  with le c show ?thesis
    by (simp add: sint_small word_le_def)
qed

lemma sint_sub_small:
  "(v :: 64 word) \<le> c \<Longrightarrow> c < 2 ^ 63 \<Longrightarrow> sint (c - v) = sint c - sint v"
proof -
  assume le: "v \<le> c" and c: "c < 2 ^ 63"
  then have v: "v < 2 ^ 63" by simp
  have "c - v \<le> c"
    using le by (simp add: word_sub_le)
  with c have d: "c - v < 2 ^ 63" by simp
  have "uint (c - v) = uint c - uint v"
    using le by (simp add: uint_sub_lem [symmetric] word_le_def)
  then show ?thesis
    by (simp only: sint_small [OF c] sint_small [OF v] sint_small [OF d])
qed

lemma sint_sub_mod: "(sint (c :: 64 word) - sint v - sint (c - v)) mod 2 ^ 64 = 0"
proof -
  have "(word_of_int (sint c - sint v - sint (c - v)) :: 64 word) = 0"
    by simp
  then have "2 ^ LENGTH(64) dvd sint c - sint v - sint (c - v)"
    by (simp only: word_of_int_eq_0_iff)
  then show ?thesis
    by simp
qed

subsection \<open>The result of the root exporter\<close>

lemma renderFile_NumThreads:
  "renderFile pct Coverage Filename FileReport (Options\<lparr>NumThreads := k\<rparr>)
     = renderFile pct Coverage Filename FileReport Options"
  by (simp add: renderFile_unfold)

lemma renderFiles_sequential_NumThreads:
  "renderFiles_sequential pct Coverage SourceFiles FileReports (Options\<lparr>NumThreads := k\<rparr>)
     = renderFiles_sequential pct Coverage SourceFiles FileReports Options"
  by (simp add: renderFiles_sequential_def renderFile_NumThreads)

lemma unat_length_small:
  "length (xs :: 'a list) < 2 ^ 32 \<Longrightarrow> unat (of_nat (length xs) :: unsigned) = length xs"
  by (simp add: unat_of_nat)

lemma filenameOf_permutation:
  assumes "mset Files = mset (take n
      (renderFiles_sequential pct Coverage SourceFiles FileReports Options))"
  shows "map filenameOf Files = map Some (map (\<lambda>V. the (filenameOf V)) Files)"
proof -
  have "set Files = set (take n
      (renderFiles_sequential pct Coverage SourceFiles FileReports Options))"
    using assms by (rule mset_eq_setD)
  then have "set Files \<subseteq> set (renderFiles_sequential pct Coverage SourceFiles FileReports Options)"
    using set_take_subset by fastforce
  then have "\<And>V. V \<in> set Files \<Longrightarrow> filenameOf V \<noteq> None"
    using sequential_named [of _ pct Coverage SourceFiles FileReports Options]
    unfolding named_filenameOf by blast
  then show ?thesis
    by auto
qed

lemma distinct_names_permutation:
  assumes "mset Files = mset (take n
      (renderFiles_sequential pct Coverage SourceFiles FileReports Options))"
    and "distinct SourceFiles"
  shows "distinct (map (\<lambda>V. the (filenameOf V)) Files)"
proof -
  have "mset (map (\<lambda>V. the (filenameOf V)) Files)
      = mset (map (\<lambda>V. the (filenameOf V)) (take n
          (renderFiles_sequential pct Coverage SourceFiles FileReports Options)))"
    using assms(1) by simp
  then show ?thesis
    using distinct_names_sequential [OF assms(2), of n pct Coverage FileReports Options]
    by (metis mset_eq_imp_distinct_iff)
qed

lemma documentFiles_document:
  "documentFiles (JObject [(''version'', V), (''type'', T),
      (''data'', JArray [JObject ((''files'', JArray Files) # Rest)])]) = Some Files"
  by (simp add: documentFiles_def documentExport_def getArray_def get_def)

lemma documentExport_document:
  "documentExport (JObject [(''version'', V), (''type'', T),
      (''data'', JArray [JObject Export])]) = Some Export"
  by (simp add: documentExport_def getArray_def get_def)

lemma sorted_wrt_StringRef_compare:
  "sorted_wrt (\<lambda>A B. StringRef_compare A B < 0) Names = (sorted Names \<and> distinct Names)"
  by (simp add: StringRef_compare_less strict_sorted_iff)

lemma renderRoot_sorted:
  assumes "std_sort compareFilenames Files = Inr Sorted"
    and "renderFiles hw sched pct Coverage SourceFiles (fst (prepareFileReports SourceFiles))
           Options = Some (Inr Files)"
  shows "renderRoot hw sched pct prepareFileReports Coverage Options SourceFiles
      = Some (Inr (JObject
                [(''version'', JString ''2.0.0''),
                 (''type'', JString ''llvm.coverage.json.export''),
                 (''data'', JArray [JObject
                    ((''files'', JArray Sorted) #
                     (''totals'', JObject (renderSummary pct (snd (prepareFileReports SourceFiles)))) #
                     (if \<not> ExportSummaryOnly Options \<and> \<not> SkipFunctions Options
                      then [(''functions'',
                             JArray (renderFunctions (getCoveredFunctions Coverage)))]
                      else []))])]))"
  by (simp add: renderRoot_def split_def assms mkObject_def try_emplace_def)

lemma renderRoot_cases:
  "renderRoot hw sched pct prepareFileReports Coverage Options SourceFiles
     = Some (Inl (AssertionFailed ''Invalid index!''))
   \<or> (\<exists>Sorted. renderRoot hw sched pct prepareFileReports Coverage Options SourceFiles
            = Some (Inr (JObject
                [(''version'', JString ''2.0.0''),
                 (''type'', JString ''llvm.coverage.json.export''),
                 (''data'', JArray [JObject
                    ((''files'', JArray Sorted) #
                     (''totals'', JObject (renderSummary pct (snd (prepareFileReports SourceFiles)))) #
                     (if \<not> ExportSummaryOnly Options \<and> \<not> SkipFunctions Options
                      then [(''functions'',
                             JArray (renderFunctions (getCoveredFunctions Coverage)))]
                      else []))])])))"
  using renderRoot_result [of prepareFileReports SourceFiles hw sched pct Coverage Options]
  by (cases "length (fst (prepareFileReports SourceFiles))
               < unat (of_nat (length SourceFiles) :: unsigned)") auto

lemma renderFiles_returns:
  "length FileReports = length SourceFiles \<Longrightarrow>
   \<exists>Files. renderFiles hw sched pct Coverage SourceFiles FileReports Options = Some (Inr Files)"
proof -
  assume "length FileReports = length SourceFiles"
  then have "\<not> length FileReports < unat (of_nat (length SourceFiles) :: unsigned)"
    by (simp add: unat_of_nat)
  with renderFiles_result [of FileReports SourceFiles hw sched pct Coverage Options]
  show ?thesis
    by auto
qed

lemma renderRoot_returns:
  "length (fst (prepareFileReports SourceFiles)) = length SourceFiles \<Longrightarrow>
   \<exists>Doc. renderRoot hw sched pct prepareFileReports Coverage Options SourceFiles = Some (Inr Doc)"
proof -
  assume "length (fst (prepareFileReports SourceFiles)) = length SourceFiles"
  then have "\<not> length (fst (prepareFileReports SourceFiles))
          < unat (of_nat (length SourceFiles) :: unsigned)"
    by (simp add: unat_of_nat)
  with renderRoot_result [of prepareFileReports SourceFiles hw sched pct Coverage Options]
  show ?thesis
    by auto
qed

lemma renderRoot_filters_files:
  "renderRoot_filters hw sched pct prepareFileReports Coverage Options matchesFilename
     = renderRoot hw sched pct prepareFileReports Coverage Options
         (filter (\<lambda>SF. \<not> matchesFilename SF) (getUniqueSourceFiles Coverage))"
proof -
  have "foldl (\<lambda>SourceFiles SF. if \<not> matchesFilename SF then SourceFiles @ [SF] else SourceFiles)
          acc xs = acc @ filter (\<lambda>SF. \<not> matchesFilename SF) xs" for acc xs
    by (induction xs arbitrary: acc) simp_all
  then show ?thesis
    by (simp add: renderRoot_filters_def)
qed

subsection \<open>The example export\<close>

lemma example_loop:
  "renderFiles_loop noPercent exampleCoverage [''b.c'', ''a.c'']
      (fst (examplePrepare [''b.c'', ''a.c''])) exampleOptions 0 2 []
    = Inr [\<lambda>FileArray. FileArray @ [JObject (renderFile noPercent exampleCoverage ''b.c''
              (FileCoverageSummary_init ''b.c'') exampleOptions)],
           \<lambda>FileArray. FileArray @ [JObject (renderFile noPercent exampleCoverage ''a.c''
              (FileCoverageSummary_init ''a.c'') exampleOptions)]]"
  by (simp add: renderFiles_loop.simps [of _ _ _ _ _ 0] renderFiles_loop.simps [of _ _ _ _ _ 1]
      renderFiles_loop.simps [of _ _ _ _ _ 2] ArrayRef_index_def examplePrepare_def)

lemma example_renderFiles:
  "renderFiles 8 [] noPercent exampleCoverage [''b.c'', ''a.c'']
     (fst (examplePrepare [''b.c'', ''a.c''])) exampleOptions
   = Some (Inr
        [JObject (renderFile noPercent exampleCoverage ''b.c''
           (FileCoverageSummary_init ''b.c'') exampleOptions),
         JObject (renderFile noPercent exampleCoverage ''a.c''
           (FileCoverageSummary_init ''a.c'') exampleOptions)])"
  "renderFiles 8 [1] noPercent exampleCoverage [''b.c'', ''a.c'']
     (fst (examplePrepare [''b.c'', ''a.c''])) exampleOptions
   = Some (Inr
        [JObject (renderFile noPercent exampleCoverage ''a.c''
           (FileCoverageSummary_init ''a.c'') exampleOptions),
         JObject (renderFile noPercent exampleCoverage ''b.c''
           (FileCoverageSummary_init ''b.c'') exampleOptions)])"
proof -
  have n: "renderFiles_NumThreads 8 [''b.c'', ''a.c''] exampleOptions = 2"
    by (simp add: renderFiles_NumThreads_def exampleOptions_def)
  show "renderFiles 8 [] noPercent exampleCoverage [''b.c'', ''a.c'']
     (fst (examplePrepare [''b.c'', ''a.c''])) exampleOptions
   = Some (Inr
        [JObject (renderFile noPercent exampleCoverage ''b.c''
           (FileCoverageSummary_init ''b.c'') exampleOptions),
         JObject (renderFile noPercent exampleCoverage ''a.c''
           (FileCoverageSummary_init ''a.c'') exampleOptions)])"
    by (simp add: renderFiles_def example_loop n Let_def pick_def)
  show "renderFiles 8 [1] noPercent exampleCoverage [''b.c'', ''a.c'']
     (fst (examplePrepare [''b.c'', ''a.c''])) exampleOptions
   = Some (Inr
        [JObject (renderFile noPercent exampleCoverage ''a.c''
           (FileCoverageSummary_init ''a.c'') exampleOptions),
         JObject (renderFile noPercent exampleCoverage ''b.c''
           (FileCoverageSummary_init ''b.c'') exampleOptions)])"
    by (simp add: renderFiles_def example_loop n Let_def pick_def)
qed

lemma example_sort:
  "std_sort compareFilenames
        [JObject (renderFile noPercent exampleCoverage ''b.c''
           (FileCoverageSummary_init ''b.c'') exampleOptions),
         JObject (renderFile noPercent exampleCoverage ''a.c''
           (FileCoverageSummary_init ''a.c'') exampleOptions :: unit Object)]
   = Inr
        [JObject (renderFile noPercent exampleCoverage ''a.c''
           (FileCoverageSummary_init ''a.c'') exampleOptions),
         JObject (renderFile noPercent exampleCoverage ''b.c''
           (FileCoverageSummary_init ''b.c'') exampleOptions)]"
  by (simp add: compareFilenames_named [OF filenameOf_renderFile filenameOf_renderFile]
      less_char_def)

lemma example_renderRoot:
  "renderRoot 8 [] noPercent examplePrepare exampleCoverage exampleOptions [''b.c'', ''a.c'']
     = Some (Inr exampleDocument)"
  "renderRoot 8 [1] noPercent examplePrepare exampleCoverage exampleOptions [''b.c'', ''a.c'']
     = Some (Inr exampleDocument)"
proof -
  have funs: "renderFunctions (getCoveredFunctions exampleCoverage) = ([] :: unit Value list)"
    by (simp add: renderFunctions_def exampleCoverage_def)
  have options: "\<not> ExportSummaryOnly exampleOptions \<and> \<not> SkipFunctions exampleOptions"
    by (simp add: exampleOptions_def)
  have totals: "snd (examplePrepare [''b.c'', ''a.c'']) = FileCoverageSummary_init ''Totals''"
    by (simp add: examplePrepare_def)
  show "renderRoot 8 [] noPercent examplePrepare exampleCoverage exampleOptions [''b.c'', ''a.c'']
     = Some (Inr exampleDocument)"
    using renderRoot_sorted [where prepareFileReports = examplePrepare,
        OF example_sort example_renderFiles(1)]
    by (simp add: funs options totals exampleDocument_def)
  have sorted: "std_sort compareFilenames
        [JObject (renderFile noPercent exampleCoverage ''a.c''
           (FileCoverageSummary_init ''a.c'') exampleOptions),
         JObject (renderFile noPercent exampleCoverage ''b.c''
           (FileCoverageSummary_init ''b.c'') exampleOptions :: unit Object)]
   = Inr
        [JObject (renderFile noPercent exampleCoverage ''a.c''
           (FileCoverageSummary_init ''a.c'') exampleOptions),
         JObject (renderFile noPercent exampleCoverage ''b.c''
           (FileCoverageSummary_init ''b.c'') exampleOptions)]"
    by (simp add: compareFilenames_named [OF filenameOf_renderFile filenameOf_renderFile]
        less_char_def)
  show "renderRoot 8 [1] noPercent examplePrepare exampleCoverage exampleOptions [''b.c'', ''a.c'']
     = Some (Inr exampleDocument)"
    using renderRoot_sorted [where prepareFileReports = examplePrepare,
        OF sorted example_renderFiles(2)]
    by (simp add: funs options totals exampleDocument_def)
qed

lemma example_files:
  "documentFiles exampleDocument = Some
     [JObject (renderFile noPercent exampleCoverage ''a.c''
        (FileCoverageSummary_init ''a.c'') exampleOptions),
      JObject (renderFile noPercent exampleCoverage ''b.c''
        (FileCoverageSummary_init ''b.c'') exampleOptions)]"
  by (simp add: exampleDocument_def documentFiles_document)

section \<open>The claims\<close>

text \<open>
  C1. When the source files are pairwise different, every document the export writes, for
  every hardware concurrency, schedule and \<open>NumThreads\<close>, has a \<open>files\<close> array whose
  objects carry names that are strictly ascending in the byte-wise order of
  \<open>StringRef::compare\<close>; and the export does write a document when the summarizer returns
  one report per file.
\<close>

theorem renderRoot_files_sorted:
  assumes "distinct SourceFiles"
  shows "(\<forall>Doc. renderRoot hw sched pct prepareFileReports Coverage Options SourceFiles
                 = Some (Inr Doc) \<longrightarrow>
            (\<exists>Files Names. documentFiles Doc = Some Files
               \<and> map filenameOf Files = map Some Names
               \<and> sorted_wrt (\<lambda>A B. StringRef_compare A B < 0) Names))
     \<and> (length (fst (prepareFileReports SourceFiles)) = length SourceFiles \<longrightarrow>
          (\<exists>Doc. renderRoot hw sched pct prepareFileReports Coverage Options SourceFiles
                   = Some (Inr Doc)))"
proof (intro conjI allI impI)
  fix Doc
  assume ret: "renderRoot hw sched pct prepareFileReports Coverage Options SourceFiles
                 = Some (Inr Doc)"
  with renderRoot_result [of prepareFileReports SourceFiles hw sched pct Coverage Options]
  obtain Sorted where
    doc: "documentFiles Doc = Some Sorted"
    and perm: "mset Sorted = mset (take (unat (of_nat (length SourceFiles) :: unsigned))
        (renderFiles_sequential pct Coverage SourceFiles
           (fst (prepareFileReports SourceFiles)) Options))"
    and sorted: "sorted (map (\<lambda>V. the (filenameOf V)) Sorted)"
    by (cases "length (fst (prepareFileReports SourceFiles))
                 < unat (of_nat (length SourceFiles) :: unsigned)")
      (auto simp: documentFiles_document)
  have "sorted_wrt (\<lambda>A B. StringRef_compare A B < 0) (map (\<lambda>V. the (filenameOf V)) Sorted)"
    using sorted distinct_names_permutation [OF perm assms]
    by (simp only: sorted_wrt_StringRef_compare)
  with doc filenameOf_permutation [OF perm]
  show "\<exists>Files Names. documentFiles Doc = Some Files
               \<and> map filenameOf Files = map Some Names
               \<and> sorted_wrt (\<lambda>A B. StringRef_compare A B < 0) Names"
    by blast
next
  assume "length (fst (prepareFileReports SourceFiles)) = length SourceFiles"
  then show "\<exists>Doc. renderRoot hw sched pct prepareFileReports Coverage Options SourceFiles
                   = Some (Inr Doc)"
    by (rule renderRoot_returns)
qed

theorem renderRoot_files_sorted_witness:
  "distinct [''b.c'', ''a.c'']
   \<and> renderRoot 8 [] noPercent examplePrepare exampleCoverage exampleOptions [''b.c'', ''a.c'']
        = Some (Inr exampleDocument)
   \<and> length (fst (examplePrepare [''b.c'', ''a.c''])) = length [''b.c'', ''a.c'']
   \<and> (\<exists>Files. documentFiles exampleDocument = Some Files
        \<and> map filenameOf Files = map Some [''a.c'', ''b.c'']
        \<and> sorted_wrt (\<lambda>A B. StringRef_compare A B < 0) [''a.c'', ''b.c''])"
proof -
  have d: "distinct [''b.c'', ''a.c'']"
    by simp
  from renderRoot_files_sorted [where prepareFileReports = examplePrepare and hw = 8
      and sched = "[]" and pct = noPercent and Coverage = exampleCoverage
      and Options = exampleOptions, OF d]
  show ?thesis
    by (auto simp: example_renderRoot example_files filenameOf_renderFile examplePrepare_def)
qed

text \<open>
  C2, amended. For fewer than \<open>2 ^ 32\<close> pairwise different source files with one report
  each, \<open>renderFiles\<close> returns, and what it returns is a permutation of the sequential
  rendering with one object per file; sorting it gives the same array as sorting the
  sequential rendering, and the document is the same for every schedule, hardware
  concurrency and \<open>NumThreads\<close>.
\<close>

theorem renderFiles_order_independent:
  assumes "length SourceFiles < 2 ^ 32" and "distinct SourceFiles"
    and "length (fst (prepareFileReports SourceFiles)) = length SourceFiles"
  shows "\<exists>Files Sorted Doc.
     renderFiles hw sched pct Coverage SourceFiles (fst (prepareFileReports SourceFiles)) Options
       = Some (Inr Files)
     \<and> mset Files = mset (renderFiles_sequential pct Coverage SourceFiles
                            (fst (prepareFileReports SourceFiles)) Options)
     \<and> length Files = length SourceFiles
     \<and> std_sort compareFilenames Files = Inr Sorted
     \<and> std_sort compareFilenames (renderFiles_sequential pct Coverage SourceFiles
                            (fst (prepareFileReports SourceFiles)) Options) = Inr Sorted
     \<and> renderRoot hw sched pct prepareFileReports Coverage Options SourceFiles = Some (Inr Doc)
     \<and> documentFiles Doc = Some Sorted
     \<and> renderRoot hw' sched' pct prepareFileReports Coverage (Options\<lparr>NumThreads := k\<rparr>)
          SourceFiles = Some (Inr Doc)"
proof -
  let ?FR = "fst (prepareFileReports SourceFiles)"
  let ?seq = "renderFiles_sequential pct Coverage SourceFiles ?FR Options"
  let ?key = "\<lambda>V :: 'a Value. the (filenameOf V)"
  let ?n = "unat (of_nat (length SourceFiles) :: unsigned)"
  have n: "?n = length SourceFiles"
    using assms(1) by (rule unat_length_small)
  have len: "length ?seq = length SourceFiles"
    using assms(3) by (simp add: renderFiles_sequential_def)
  have whole: "take ?n ?seq = ?seq"
    by (simp add: n len)
  have enough: "\<not> length ?FR < ?n"
    by (simp add: n assms(3))
  have unique: "ys = zs"
    if "mset ys = mset ?seq" "sorted (map ?key ys)"
      "mset zs = mset ?seq" "sorted (map ?key zs)" for ys zs
  proof -
    have "mset ys = mset (take ?n ?seq)"
      using that(1) by (simp only: whole)
    then have "distinct (map ?key ys)"
      using assms(2) by (rule distinct_names_permutation)
    moreover have "mset ys = mset zs"
      using that(1,3) by simp
    ultimately show ?thesis
      using that(2,4) by (intro sorted_permutation_unique [of ys zs ?key])
  qed
  from renderFiles_result [of ?FR SourceFiles hw sched pct Coverage Options] enough
  obtain Files where Files:
    "renderFiles hw sched pct Coverage SourceFiles ?FR Options = Some (Inr Files)"
    "mset Files = mset ?seq"
    by (auto simp only: whole if_False)
  have length: "length Files = length SourceFiles"
    using Files(2) len by (metis mset_eq_length)
  from std_sort_files [of Files ?n pct Coverage SourceFiles ?FR Options] Files(2)
  obtain Sorted where Sorted: "std_sort compareFilenames Files = Inr Sorted"
    "mset Sorted = mset ?seq" "sorted (map ?key Sorted)"
    by (auto simp only: whole)
  from std_sort_files [of ?seq ?n pct Coverage SourceFiles ?FR Options]
  obtain Sorted' where Sorted': "std_sort compareFilenames ?seq = Inr Sorted'"
    "mset Sorted' = mset ?seq" "sorted (map ?key Sorted')"
    by (auto simp only: whole)
  have seq: "std_sort compareFilenames ?seq = Inr Sorted"
    using Sorted' unique [OF Sorted(2,3) Sorted'(2,3)] by simp
  note doc = renderRoot_sorted [where prepareFileReports = prepareFileReports,
      OF Sorted(1) Files(1)]
  have enough': "\<not> length ?FR < ?n"
    by (rule enough)
  from renderFiles_result [of ?FR SourceFiles hw' sched' pct Coverage
      "Options\<lparr>NumThreads := k\<rparr>"] enough
  obtain Files' where Files':
    "renderFiles hw' sched' pct Coverage SourceFiles ?FR (Options\<lparr>NumThreads := k\<rparr>)
       = Some (Inr Files')"
    "mset Files' = mset ?seq"
    by (auto simp only: whole if_False renderFiles_sequential_NumThreads)
  from std_sort_files [of Files' ?n pct Coverage SourceFiles ?FR Options] Files'(2)
  obtain Sorted'' where Sorted'': "std_sort compareFilenames Files' = Inr Sorted''"
    "mset Sorted'' = mset ?seq" "sorted (map ?key Sorted'')"
    by (auto simp only: whole)
  have same: "Sorted'' = Sorted"
    by (rule unique [OF Sorted''(2,3) Sorted(2,3)])
  have doc': "renderRoot hw' sched' pct prepareFileReports Coverage
      (Options\<lparr>NumThreads := k\<rparr>) SourceFiles
    = renderRoot hw sched pct prepareFileReports Coverage Options SourceFiles"
    using renderRoot_sorted [where prepareFileReports = prepareFileReports,
        OF Sorted''(1) Files'(1)] doc by (simp add: same)
  show ?thesis
    using Files(1,2) length Sorted(1) seq doc doc'
    by (simp add: documentFiles_document)
qed

theorem renderFiles_order_independent_witness:
  "length [''b.c'', ''a.c''] < 2 ^ 32 \<and> distinct [''b.c'', ''a.c'']
   \<and> length (fst (examplePrepare [''b.c'', ''a.c''])) = length [''b.c'', ''a.c'']
   \<and> (\<exists>Files Sorted.
        renderFiles 8 [] noPercent exampleCoverage [''b.c'', ''a.c'']
          (fst (examplePrepare [''b.c'', ''a.c''])) exampleOptions = Some (Inr Files)
        \<and> mset Files = mset (renderFiles_sequential noPercent exampleCoverage [''b.c'', ''a.c'']
                            (fst (examplePrepare [''b.c'', ''a.c''])) exampleOptions)
        \<and> length Files = length [''b.c'', ''a.c'']
        \<and> std_sort compareFilenames Files = Inr Sorted
        \<and> std_sort compareFilenames (renderFiles_sequential noPercent exampleCoverage
             [''b.c'', ''a.c''] (fst (examplePrepare [''b.c'', ''a.c''])) exampleOptions)
            = Inr Sorted
        \<and> renderRoot 8 [] noPercent examplePrepare exampleCoverage exampleOptions
             [''b.c'', ''a.c''] = Some (Inr exampleDocument)
        \<and> documentFiles exampleDocument = Some Sorted
        \<and> renderRoot 1 [1] noPercent examplePrepare exampleCoverage
             (exampleOptions\<lparr>NumThreads := 64\<rparr>) [''b.c'', ''a.c'']
            = Some (Inr exampleDocument))"
proof -
  have s: "length [''b.c'', ''a.c''] < 2 ^ 32"
    by simp
  have d: "distinct [''b.c'', ''a.c'']"
    by simp
  have l: "length (fst (examplePrepare [''b.c'', ''a.c''])) = length [''b.c'', ''a.c'']"
    by (simp add: examplePrepare_def)
  from renderFiles_order_independent [where prepareFileReports = examplePrepare and hw = 8
      and sched = "[]" and pct = noPercent and Coverage = exampleCoverage
      and Options = exampleOptions and hw' = 1 and sched' = "[1]" and k = 64, OF s d l]
  show ?thesis
    using s d l by (auto simp: example_renderRoot)
qed

text \<open>
  The claim as stated fails for \<open>2 ^ 32\<close> files: the loop bound is the size cast to
  \<open>unsigned\<close>, which is 0, so no task is submitted and the returned array is empty,
  where the sequential rendering has \<open>2 ^ 32\<close> objects.
\<close>

theorem renderFiles_order_independent_counterexample:
  "distinct manyFiles
   \<and> length (fst (examplePrepare manyFiles)) = length manyFiles
   \<and> renderFiles 8 [] noPercent exampleCoverage manyFiles (fst (examplePrepare manyFiles))
        exampleOptions = Some (Inr [])
   \<and> mset ([] :: unit Value list)
       \<noteq> mset (renderFiles_sequential noPercent exampleCoverage manyFiles
                 (fst (examplePrepare manyFiles)) exampleOptions)
   \<and> length ([] :: unit Value list) \<noteq> length manyFiles"
proof -
  have "unat (of_nat (length manyFiles) :: unsigned) = 0"
    by (simp add: length_manyFiles)
  with renderFiles_result [of "fst (examplePrepare manyFiles)" manyFiles 8 "[]" noPercent
      exampleCoverage exampleOptions]
  have files: "renderFiles 8 [] noPercent exampleCoverage manyFiles
        (fst (examplePrepare manyFiles)) exampleOptions = Some (Inr [])"
    by auto
  have "length (renderFiles_sequential noPercent exampleCoverage manyFiles
          (fst (examplePrepare manyFiles)) exampleOptions :: unit Value list) = 2 ^ 32"
    by (simp add: renderFiles_sequential_def examplePrepare_def length_manyFiles)
  then have "renderFiles_sequential noPercent exampleCoverage manyFiles
          (fst (examplePrepare manyFiles)) exampleOptions \<noteq> ([] :: unit Value list)"
    by auto
  with files show ?thesis
    by (simp add: distinct_manyFiles examplePrepare_def length_manyFiles)
qed

text \<open>
  C3. A document that the export writes is the object with the keys \<open>version\<close> (the
  string 2.0.0), \<open>type\<close> (the string llvm.coverage.json.export) and \<open>data\<close>, a
  one-element array holding the export object with the keys \<open>files\<close>, \<open>totals\<close> and
  possibly \<open>functions\<close>. For the source files b.c and a.c with one report each, the
  \<open>files\<close> array holds the object of a.c and then the object of b.c. A document is
  written whenever the summarizer returns one report per file.
\<close>

theorem renderRoot_document:
  "(renderRoot hw sched pct prepareFileReports Coverage Options SourceFiles = Some (Inr Doc) \<longrightarrow>
      (\<exists>Files Totals Functions.
         Doc = JObject [(''version'', JString ''2.0.0''),
                        (''type'', JString ''llvm.coverage.json.export''),
                        (''data'', JArray [JObject
                           [(''files'', JArray Files), (''totals'', JObject Totals)]])]
       \<or> Doc = JObject [(''version'', JString ''2.0.0''),
                        (''type'', JString ''llvm.coverage.json.export''),
                        (''data'', JArray [JObject
                           [(''files'', JArray Files), (''totals'', JObject Totals),
                            (''functions'', JArray Functions)]])]))
   \<and> (length (fst (prepareFileReports [''b.c'', ''a.c''])) = 2 \<longrightarrow>
      (\<exists>Doc' File0 File1.
         renderRoot hw sched pct prepareFileReports Coverage Options [''b.c'', ''a.c'']
           = Some (Inr Doc')
         \<and> documentFiles Doc' = Some [File0, File1]
         \<and> filenameOf File0 = Some ''a.c'' \<and> filenameOf File1 = Some ''b.c''))
   \<and> (length (fst (prepareFileReports SourceFiles)) = length SourceFiles \<longrightarrow>
      (\<exists>Doc'. renderRoot hw sched pct prepareFileReports Coverage Options SourceFiles
                 = Some (Inr Doc')))"
proof (intro conjI impI)
  assume "renderRoot hw sched pct prepareFileReports Coverage Options SourceFiles = Some (Inr Doc)"
  with renderRoot_cases [of hw sched pct prepareFileReports Coverage Options SourceFiles]
  show "\<exists>Files Totals Functions.
         Doc = JObject [(''version'', JString ''2.0.0''),
                        (''type'', JString ''llvm.coverage.json.export''),
                        (''data'', JArray [JObject
                           [(''files'', JArray Files), (''totals'', JObject Totals)]])]
       \<or> Doc = JObject [(''version'', JString ''2.0.0''),
                        (''type'', JString ''llvm.coverage.json.export''),
                        (''data'', JArray [JObject
                           [(''files'', JArray Files), (''totals'', JObject Totals),
                            (''functions'', JArray Functions)]])]"
    by (auto split: if_splits)
next
  let ?SF = "[''b.c'', ''a.c'']"
  assume len: "length (fst (prepareFileReports ?SF)) = 2"
  have d: "distinct ?SF" by simp
  have len': "length (fst (prepareFileReports ?SF)) = length ?SF"
    using len by simp
  have n: "unat (of_nat (length ?SF) :: unsigned) = 2"
    by simp
  from len obtain R0 R1 where FR: "fst (prepareFileReports ?SF) = [R0, R1]"
    by (auto simp: length_Suc_conv numeral_2_eq_2)
  have enough: "\<not> length (fst (prepareFileReports ?SF)) < unat (of_nat (length ?SF) :: unsigned)"
    using len by simp
  from renderRoot_result [of prepareFileReports ?SF hw sched pct Coverage Options] enough
  obtain Doc' Sorted where
    doc: "renderRoot hw sched pct prepareFileReports Coverage Options ?SF = Some (Inr Doc')"
      "documentFiles Doc' = Some Sorted"
    and perm: "mset Sorted = mset (take (unat (of_nat (length ?SF) :: unsigned))
        (renderFiles_sequential pct Coverage ?SF (fst (prepareFileReports ?SF)) Options))"
    and sorted: "sorted (map (\<lambda>V. the (filenameOf V)) Sorted)"
    by (auto simp only: if_False documentFiles_document)
  let ?Fa = "JObject (renderFile pct Coverage ''a.c'' R1 Options)"
  let ?Fb = "JObject (renderFile pct Coverage ''b.c'' R0 Options)"
  have "mset Sorted = mset [?Fa, ?Fb]"
    using perm by (simp add: FR renderFiles_sequential_def)
  moreover have "distinct (map (\<lambda>V. the (filenameOf V)) Sorted)"
    using perm d by (rule distinct_names_permutation)
  moreover have "sorted (map (\<lambda>V. the (filenameOf V)) [?Fa, ?Fb])"
    by (simp add: filenameOf_renderFile less_eq_char_def)
  ultimately have "Sorted = [?Fa, ?Fb]"
    using sorted by (intro sorted_permutation_unique [of Sorted _ "\<lambda>V. the (filenameOf V)"])
  with doc show "\<exists>Doc' File0 File1.
         renderRoot hw sched pct prepareFileReports Coverage Options ?SF = Some (Inr Doc')
         \<and> documentFiles Doc' = Some [File0, File1]
         \<and> filenameOf File0 = Some ''a.c'' \<and> filenameOf File1 = Some ''b.c''"
    by (simp add: filenameOf_renderFile)
next
  assume "length (fst (prepareFileReports SourceFiles)) = length SourceFiles"
  then show "\<exists>Doc'. renderRoot hw sched pct prepareFileReports Coverage Options SourceFiles
                 = Some (Inr Doc')"
    by (rule renderRoot_returns)
qed

theorem renderRoot_document_witness:
  "renderRoot 8 [] noPercent examplePrepare exampleCoverage exampleOptions [''b.c'', ''a.c'']
     = Some (Inr exampleDocument)
   \<and> length (fst (examplePrepare [''b.c'', ''a.c''])) = 2
   \<and> length (fst (examplePrepare [''b.c'', ''a.c''])) = length [''b.c'', ''a.c'']
   \<and> (\<exists>Files Totals Functions.
         exampleDocument = JObject [(''version'', JString ''2.0.0''),
                        (''type'', JString ''llvm.coverage.json.export''),
                        (''data'', JArray [JObject
                           [(''files'', JArray Files), (''totals'', JObject Totals),
                            (''functions'', JArray Functions)]])])
   \<and> (\<exists>File0 File1.
         documentFiles exampleDocument = Some [File0, File1]
         \<and> filenameOf File0 = Some ''a.c'' \<and> filenameOf File1 = Some ''b.c'')"
  using renderRoot_document [of 8 "[]" noPercent examplePrepare exampleCoverage exampleOptions
      "[''b.c'', ''a.c'']" exampleDocument]
  by (auto simp: example_renderRoot examplePrepare_def exampleDocument_def)

text \<open>
  C4. A rendered file object always has the key \<open>summary\<close>, and its value is the rendering
  of the report the caller passed in (the coverage mapping is not consulted for it); it has
  the key \<open>segments\<close> exactly when \<open>ExportSummaryOnly\<close> is off, and the key
  \<open>expansions\<close> exactly when \<open>ExportSummaryOnly\<close> and \<open>SkipExpansions\<close> are both off.
\<close>

theorem renderFile_keys:
  "get (renderFile pct Coverage Filename FileReport Options) ''summary''
       = Some (JObject (renderSummary pct FileReport))
   \<and> (get (renderFile pct Coverage Filename FileReport Options) ''segments'' \<noteq> None)
       = (\<not> ExportSummaryOnly Options)
   \<and> (get (renderFile pct Coverage Filename FileReport Options) ''expansions'' \<noteq> None)
       = (\<not> ExportSummaryOnly Options \<and> \<not> SkipExpansions Options)"
proof (cases "ExportSummaryOnly Options")
  case True
  then have "renderFile pct Coverage Filename FileReport Options
      = [(''filename'', JString Filename),
         (''summary'', JObject (renderSummary pct FileReport))]"
    by (simp add: renderFile_unfold)
  with True show ?thesis
    by (simp add: get_def)
next
  case False
  show ?thesis
  proof (cases "SkipExpansions Options")
    case True
    with False have "renderFile pct Coverage Filename FileReport Options
        = [(''filename'', JString Filename),
           (''segments'', JArray (renderFileSegments
              (getCoverageForFile Coverage Filename) FileReport)),
           (''summary'', JObject (renderSummary pct FileReport))]"
      by (simp add: renderFile_unfold)
    with True False show ?thesis
      by (simp add: get_def)
  next
    case skip: False
    with False have "renderFile pct Coverage Filename FileReport Options
        = [(''filename'', JString Filename),
           (''segments'', JArray (renderFileSegments
              (getCoverageForFile Coverage Filename) FileReport)),
           (''expansions'', JArray (renderFileExpansions
              (getCoverageForFile Coverage Filename) FileReport)),
           (''summary'', JObject (renderSummary pct FileReport))]"
      by (simp add: renderFile_unfold)
    with skip False show ?thesis
      by (simp add: get_def)
  qed
qed

text \<open>
  C5. The export object of a written document has the key \<open>functions\<close> exactly when
  \<open>ExportSummaryOnly\<close> and \<open>SkipFunctions\<close> are both off; a document is written
  whenever the summarizer returns one report per file.
\<close>

theorem renderRoot_functions_key:
  "(\<forall>Doc. renderRoot hw sched pct prepareFileReports Coverage Options SourceFiles
            = Some (Inr Doc) \<longrightarrow>
       (\<exists>Export. documentExport Doc = Some Export
          \<and> (get Export ''functions'' \<noteq> None)
              = (\<not> ExportSummaryOnly Options \<and> \<not> SkipFunctions Options)))
   \<and> (length (fst (prepareFileReports SourceFiles)) = length SourceFiles \<longrightarrow>
        (\<exists>Doc. renderRoot hw sched pct prepareFileReports Coverage Options SourceFiles
                 = Some (Inr Doc)))"
  using renderRoot_cases [of hw sched pct prepareFileReports Coverage Options SourceFiles]
    renderRoot_returns [of prepareFileReports SourceFiles hw sched pct Coverage Options]
  by (auto simp: documentExport_document get_def)

theorem renderRoot_functions_key_witness:
  "renderRoot 8 [] noPercent examplePrepare exampleCoverage exampleOptions [''b.c'', ''a.c'']
     = Some (Inr exampleDocument)
   \<and> length (fst (examplePrepare [''b.c'', ''a.c''])) = length [''b.c'', ''a.c'']
   \<and> \<not> ExportSummaryOnly exampleOptions \<and> \<not> SkipFunctions exampleOptions
   \<and> (\<exists>Export. documentExport exampleDocument = Some Export
        \<and> get Export ''functions'' = Some (JArray []))"
proof -
  have options: "\<not> ExportSummaryOnly exampleOptions \<and> \<not> SkipFunctions exampleOptions"
    by (simp add: exampleOptions_def)
  have reports: "length (fst (examplePrepare [''b.c'', ''a.c''])) = length [''b.c'', ''a.c'']"
    by (simp add: examplePrepare_def)
  have export: "documentExport exampleDocument = Some
     [(''files'', JArray
         [JObject (renderFile noPercent exampleCoverage ''a.c''
            (FileCoverageSummary_init ''a.c'') exampleOptions),
          JObject (renderFile noPercent exampleCoverage ''b.c''
            (FileCoverageSummary_init ''b.c'') exampleOptions)]),
      (''totals'', JObject (renderSummary noPercent (FileCoverageSummary_init ''Totals''))),
      (''functions'', JArray [])]"
    by (simp add: exampleDocument_def documentExport_document)
  from renderRoot_functions_key [of 8 "[]" noPercent examplePrepare exampleCoverage
      exampleOptions "[''b.c'', ''a.c'']"]
  show ?thesis
    using options reports by (simp add: example_renderRoot export get_def)
qed

text \<open>
  C6. With \<open>ExportSummaryOnly\<close> off, the \<open>segments\<close> array of a file object is the
  provider's segment list for that file mapped through \<open>renderSegment\<close>, element by
  element and in the same order, and a rendered segment is the five-element array
  line, column, count, hasCount, isRegionEntry.
\<close>

theorem renderFile_segments:
  "\<not> ExportSummaryOnly Options \<Longrightarrow>
   get (renderFile pct Coverage Filename FileReport Options) ''segments''
     = Some (JArray (map (\<lambda>Segment. JArray (renderSegment Segment))
                       (Segments (getCoverageForFile Coverage Filename))))
   \<and> renderSegment S = [JInteger (ucast (Line S)), JInteger (ucast (Col S)),
         JInteger (Count S), JBoolean (HasCount S), JBoolean (IsRegionEntry S) :: 'd Value]"
  by (simp add: renderFile_unfold get_def renderFileSegments_def foldl_push_back
      renderSegment_def)

theorem renderFile_segments_witness:
  "\<not> ExportSummaryOnly exampleOptions
   \<and> get (renderFile noPercent exampleCoverage ''a.c'' (FileCoverageSummary_init ''a.c'')
        exampleOptions) ''segments''
     = Some (JArray [JArray [JInteger 10, JInteger 1, JInteger 5, JBoolean True,
                             JBoolean True]])"
  using renderFile_segments [of exampleOptions noPercent exampleCoverage "''a.c''"
      "FileCoverageSummary_init ''a.c''"]
  by (simp add: exampleOptions_def exampleCoverage_def renderSegment_def)

text \<open>
  C7, amended. In every rendered summary \<open>notcovered\<close> of the regions block equals
  \<open>count - covered\<close> modulo \<open>2 ^ 64\<close>. When the summary satisfies the summarizer's
  invariant and every total is below \<open>2 ^ 63\<close>, so that the casts to \<open>int64_t\<close> keep
  the values, \<open>covered \<le> count\<close> holds in the lines, functions and instantiations
  blocks and \<open>notcovered = count - covered\<close> holds exactly.
\<close>

theorem renderSummary_counts:
  "notcoveredWrapped (renderSummary pct Summary)
   \<and> (summaryInvariant Summary \<and> countsFitInt64 Summary \<longrightarrow>
        coveredAtMostCount (renderSummary pct Summary) ''lines''
        \<and> coveredAtMostCount (renderSummary pct Summary) ''functions''
        \<and> coveredAtMostCount (renderSummary pct Summary) ''instantiations''
        \<and> notcoveredExact (renderSummary pct Summary))"
  by (simp add: notcoveredWrapped_def coveredAtMostCount_def notcoveredExact_def
      metric_renderSummary summaryInvariant_def countsFitInt64_def sint_le_small
      sint_sub_small sint_sub_mod [simplified])

theorem renderSummary_counts_witness:
  "summaryInvariant exampleSummary \<and> countsFitInt64 exampleSummary
   \<and> coveredAtMostCount (renderSummary noPercent exampleSummary) ''lines''
   \<and> coveredAtMostCount (renderSummary noPercent exampleSummary) ''functions''
   \<and> coveredAtMostCount (renderSummary noPercent exampleSummary) ''instantiations''
   \<and> notcoveredExact (renderSummary noPercent exampleSummary)
   \<and> metric (renderSummary noPercent exampleSummary) ''regions'' ''notcovered'' = Some 1"
  using renderSummary_counts [of noPercent exampleSummary]
  by (simp add: summaryInvariant_def countsFitInt64_def exampleSummary_def metric_renderSummary)

text \<open>
  The claim as stated fails for a total of \<open>2 ^ 63\<close> with one covered item: the count
  is emitted as \<open>- 2 ^ 63\<close>, below the emitted covered value 1, and \<open>notcovered\<close> is
  emitted as \<open>2 ^ 63 - 1\<close>, which is not \<open>- 2 ^ 63 - 1\<close>.
\<close>

theorem renderSummary_counts_counterexample:
  "summaryInvariant overflowSummary
   \<and> \<not> coveredAtMostCount (renderSummary noPercent overflowSummary) ''lines''
   \<and> \<not> notcoveredExact (renderSummary noPercent overflowSummary)"
  by (simp add: summaryInvariant_def overflowSummary_def coveredAtMostCount_def
      notcoveredExact_def metric_renderSummary)

text \<open>
  C8, amended. A nonzero \<open>NumThreads\<close> is the worker count as it is. For \<open>NumThreads\<close>
  zero the worker count is the maximum of 1 and the minimum of the hardware concurrency and
  the number of files reduced modulo \<open>2 ^ 32\<close> (the size is cast to \<open>unsigned\<close>); below
  \<open>2 ^ 32\<close> files that is the number of files itself.
\<close>

theorem renderFiles_worker_count:
  "(NumThreads Options \<noteq> 0 \<longrightarrow>
      renderFiles_NumThreads hw SourceFiles Options = NumThreads Options)
   \<and> (NumThreads Options = 0 \<longrightarrow>
        unat (renderFiles_NumThreads hw SourceFiles Options)
          = max 1 (min (unat hw) (length SourceFiles mod 2 ^ 32)))"
proof -
  have "unat (max 1 (min hw (of_nat (length SourceFiles) :: unsigned)))
        = max 1 (min (unat hw) (length SourceFiles mod 2 ^ 32))"
    by (simp add: max_def min_def word_le_nat_alt unat_of_nat)
  then show ?thesis
    by (simp add: renderFiles_NumThreads_def)
qed

theorem renderFiles_worker_count_witness:
  "NumThreads (exampleOptions\<lparr>NumThreads := 64\<rparr>) \<noteq> 0
   \<and> renderFiles_NumThreads 8 [''b.c'', ''a.c''] (exampleOptions\<lparr>NumThreads := 64\<rparr>) = 64
   \<and> NumThreads exampleOptions = 0
   \<and> unat (renderFiles_NumThreads 8 [''b.c'', ''a.c''] exampleOptions) = 2"
  using renderFiles_worker_count [of "exampleOptions\<lparr>NumThreads := 64\<rparr>" 8 "[''b.c'', ''a.c'']"]
    renderFiles_worker_count [of exampleOptions 8 "[''b.c'', ''a.c'']"]
  by (simp add: exampleOptions_def)

text \<open>
  With \<open>2 ^ 32\<close> files the cast gives 0 and the worker count is 1, where the clamp of a
  hardware concurrency of 8 to the number of files is 8.
\<close>

theorem renderFiles_worker_count_counterexample:
  "NumThreads exampleOptions = 0
   \<and> unat (renderFiles_NumThreads 8 manyFiles exampleOptions) = 1
   \<and> unat (renderFiles_NumThreads 8 manyFiles exampleOptions)
       \<noteq> max 1 (min (unat (8 :: unsigned)) (length manyFiles))"
  by (simp add: renderFiles_NumThreads_def exampleOptions_def length_manyFiles)

text \<open>
  C9. Every element of the array that \<open>renderFiles\<close> returns is an object with a
  string under \<open>filename\<close>, so the comparator returns a truth value on any two of them
  and the sort of the array does not fail; \<open>renderFiles\<close> returns an array when there is
  one report per file; and the export never stops with one of the comparator's
  assertions.
\<close>

theorem renderFiles_names_present:
  "(renderFiles hw sched pct Coverage SourceFiles FileReports Options = Some (Inr Files) \<longrightarrow>
      (\<forall>V \<in> set Files. \<exists>Obj S. V = JObject Obj \<and> getString Obj ''filename'' = Some S)
      \<and> (\<forall>A \<in> set Files. \<forall>B \<in> set Files. \<exists>Less. compareFilenames A B = Inr Less)
      \<and> (\<exists>Sorted. std_sort compareFilenames Files = Inr Sorted))
   \<and> (length FileReports = length SourceFiles \<longrightarrow>
        (\<exists>Files'. renderFiles hw sched pct Coverage SourceFiles FileReports Options
                    = Some (Inr Files')))
   \<and> renderRoot hw sched pct prepareFileReports Coverage Options SourceFiles
        \<noteq> Some (Inl (AssertionFailed ''Value A was not an Object''))
   \<and> renderRoot hw sched pct prepareFileReports Coverage Options SourceFiles
        \<noteq> Some (Inl (AssertionFailed ''Value B was not an Object''))
   \<and> renderRoot hw sched pct prepareFileReports Coverage Options SourceFiles
        \<noteq> Some (Inl (AssertionFailed ''hasVal''))"
proof (intro conjI impI)
  assume ret: "renderFiles hw sched pct Coverage SourceFiles FileReports Options = Some (Inr Files)"
  let ?n = "unat (of_nat (length SourceFiles) :: unsigned)"
  from renderFiles_result [of FileReports SourceFiles hw sched pct Coverage Options] ret
  have perm: "mset Files = mset (take ?n
      (renderFiles_sequential pct Coverage SourceFiles FileReports Options))"
    by (cases "length FileReports < ?n") auto
  then have "set Files = set (take ?n
      (renderFiles_sequential pct Coverage SourceFiles FileReports Options))"
    by (rule mset_eq_setD)
  then have "set Files \<subseteq> set (renderFiles_sequential pct Coverage SourceFiles FileReports Options)"
    using set_take_subset by fastforce
  then show named: "\<forall>V \<in> set Files. \<exists>Obj S. V = JObject Obj \<and> getString Obj ''filename'' = Some S"
    using sequential_named [of _ pct Coverage SourceFiles FileReports Options] by blast
  then show "\<forall>A \<in> set Files. \<forall>B \<in> set Files. \<exists>Less. compareFilenames A B = Inr Less"
    unfolding named_filenameOf by (metis compareFilenames_named not_Some_eq)
  show "\<exists>Sorted. std_sort compareFilenames Files = Inr Sorted"
    using std_sort_files [OF perm] by blast
next
  assume "length FileReports = length SourceFiles"
  then show "\<exists>Files'. renderFiles hw sched pct Coverage SourceFiles FileReports Options
                    = Some (Inr Files')"
    by (rule renderFiles_returns)
next
  show "renderRoot hw sched pct prepareFileReports Coverage Options SourceFiles
        \<noteq> Some (Inl (AssertionFailed ''Value A was not an Object''))"
    "renderRoot hw sched pct prepareFileReports Coverage Options SourceFiles
        \<noteq> Some (Inl (AssertionFailed ''Value B was not an Object''))"
    "renderRoot hw sched pct prepareFileReports Coverage Options SourceFiles
        \<noteq> Some (Inl (AssertionFailed ''hasVal''))"
    using renderRoot_cases [of hw sched pct prepareFileReports Coverage Options SourceFiles]
    by auto
qed

theorem renderFiles_names_present_witness:
  "renderFiles 8 [] noPercent exampleCoverage [''b.c'', ''a.c'']
     (fst (examplePrepare [''b.c'', ''a.c''])) exampleOptions
   = Some (Inr
        [JObject (renderFile noPercent exampleCoverage ''b.c''
           (FileCoverageSummary_init ''b.c'') exampleOptions),
         JObject (renderFile noPercent exampleCoverage ''a.c''
           (FileCoverageSummary_init ''a.c'') exampleOptions)])
   \<and> length (fst (examplePrepare [''b.c'', ''a.c''])) = length [''b.c'', ''a.c'']
   \<and> (\<exists>Less. compareFilenames
        (JObject (renderFile noPercent exampleCoverage ''b.c''
           (FileCoverageSummary_init ''b.c'') exampleOptions))
        (JObject (renderFile noPercent exampleCoverage ''a.c''
           (FileCoverageSummary_init ''a.c'') exampleOptions :: unit Object)) = Inr Less)
   \<and> (\<exists>Sorted. std_sort compareFilenames
        [JObject (renderFile noPercent exampleCoverage ''b.c''
           (FileCoverageSummary_init ''b.c'') exampleOptions),
         JObject (renderFile noPercent exampleCoverage ''a.c''
           (FileCoverageSummary_init ''a.c'') exampleOptions :: unit Object)] = Inr Sorted)"
proof -
  have reports: "length (fst (examplePrepare [''b.c'', ''a.c''])) = length [''b.c'', ''a.c'']"
    by (simp add: examplePrepare_def)
  from renderFiles_names_present [where prepareFileReports = examplePrepare
      and pct = noPercent and hw = 8 and sched = "[]" and Coverage = exampleCoverage
      and SourceFiles = "[''b.c'', ''a.c'']"
      and FileReports = "fst (examplePrepare [''b.c'', ''a.c''])"
      and Options = exampleOptions
      and Files = "[JObject (renderFile noPercent exampleCoverage ''b.c''
           (FileCoverageSummary_init ''b.c'') exampleOptions),
         JObject (renderFile noPercent exampleCoverage ''a.c''
           (FileCoverageSummary_init ''a.c'') exampleOptions)]"]
  show ?thesis
    using reports by (simp add: example_renderFiles)
qed

text \<open>
  C10. For the empty list of source files the worker count derived from \<open>NumThreads\<close>
  zero is 1, the loop submits no task, \<open>renderFiles\<close> returns the empty array, and the
  export writes a complete document with an empty \<open>files\<close> array and with \<open>version\<close>,
  \<open>type\<close> and \<open>totals\<close> in place.
\<close>

theorem renderRoot_no_files:
  "renderFiles_NumThreads hw ([] :: string list) (Options\<lparr>NumThreads := 0\<rparr>) = 1
   \<and> renderFiles_loop pct Coverage [] FileReports Options 0 (of_nat (length ([] :: string list))) []
       = Inr []
   \<and> renderFiles hw sched pct Coverage [] FileReports Options = Some (Inr [])
   \<and> renderRoot hw sched pct prepareFileReports Coverage Options []
       = Some (Inr (JObject
                [(''version'', JString ''2.0.0''),
                 (''type'', JString ''llvm.coverage.json.export''),
                 (''data'', JArray [JObject
                    ((''files'', JArray []) #
                     (''totals'', JObject (renderSummary pct (snd (prepareFileReports [])))) #
                     (if ExportSummaryOnly Options \<or> SkipFunctions Options then []
                      else [(''functions'',
                             JArray (renderFunctions (getCoveredFunctions Coverage)))]))])]))"
proof -
  have loop: "renderFiles_loop pct Coverage [] FileReports Options 0 0 [] = Inr []" for FileReports
    by (simp add: renderFiles_loop.simps [of _ _ _ _ _ 0 0])
  have files: "renderFiles hw sched pct Coverage [] FileReports Options = Some (Inr [])"
    for FileReports
    by (simp add: renderFiles_def loop)
  show ?thesis
    by (simp add: renderFiles_NumThreads_def loop files renderRoot_def split_def
        mkObject_def try_emplace_def)
qed

end
